theory Spec2Isabelle
  imports Complex_Main
begin

section \<open>The environment of the lock engine\<close>

text \<open>
  The classes of \<^verbatim>\<open>portalocker/utils.py\<close> act on the file system, on the advisory locks
  of the operating system and on the monotonic clock. These are kept in an explicit
  \<open>world\<close> that every operation takes and returns. Times are seconds, as rationals
  (the source's \<^verbatim>\<open>5\<close> and \<^verbatim>\<open>0.25\<close>). Every effect is also appended to a trace, so
  that the number and the order of the calls the code makes can be stated.

  The program is not alone: \<open>held\<close> lists the handles that hold an advisory lock, those
  of other parties included, and while the program sleeps the other parties go on.
  \<open>others w k\<close> is what they make of the lock table during the \<open>k\<close>-th sleep (a holder
  may release its lock, another may take one). \<open>no_locks\<close> lists the files on which the
  lock primitive fails for a reason other than contention.
\<close>

type_synonym handle = nat

datatype event =
    EvOpen handle string
  | EvLock handle bool
  | EvSleep rat
  | EvTruncate handle
  | EvUnlock handle
  | EvClose handle
  | EvUnlink string

text \<open>
  Modelled from the spec: the lock-mode constants of the module \<^verbatim>\<open>constants\<close>, which is
  not among the sources. Section 6 of the specification describes the flags as a
  combination of EXCLUSIVE/SHARED and BLOCKING/NON\_BLOCKING.
\<close>

record lock_flags =
  exclusive :: bool
  non_blocking :: bool

record world =
  clock :: rat
  elapse :: "nat \<Rightarrow> rat"
  reads :: nat
  files :: "string \<rightharpoonup> string"
  fds :: "handle \<rightharpoonup> string"
  nfds :: nat
  held :: "(handle \<times> bool) list"
  trace :: "event list"
  rng :: "nat \<Rightarrow> nat"
  rng_pos :: nat
  atexit :: "string list"
  others :: "nat \<Rightarrow> (handle \<times> bool) list \<Rightarrow> (handle \<times> bool) list"
  sleeps :: nat
  no_locks :: "string list"

text \<open>
  Modelled from the spec: the exception classes \<^verbatim>\<open>LockException\<close> and \<^verbatim>\<open>AlreadyLocked\<close>
  of the module \<^verbatim>\<open>exceptions\<close>, which is not among the sources (section 7: the generic
  lock failure and the fail-fast contention). The other constructors are built-in
  exceptions. An exception carries the arguments it was raised with:
  \<^verbatim>\<open>AlreadyLocked()\<close> has none, \<^verbatim>\<open>LockException(None)\<close> has \<^verbatim>\<open>None\<close>,
  \<^verbatim>\<open>LockException(exc)\<close> has the exception caught before. \<open>ArgPrimitive h\<close> stands for
  the arguments that the advisory-lock primitive gives to the exception it raises for the
  handle \<open>h\<close>.
\<close>

datatype error =
    LockException exc_arg
  | AlreadyLocked exc_arg
  | AssertionError string
  | OSError
  | ValueError
  | AttributeError
and exc_arg =
    NoArgs
  | ArgNone
  | ArgText string
  | ArgExc error
  | ArgPrimitive handle

text \<open>
  \<^verbatim>\<open>current_time = getattr(time, "monotonic", time.time)\<close>: a monotonic clock. Between
  two readings an amount of time that the program does not control goes by; it is the
  absolute value of the next entry of \<open>elapse\<close>, so a reading is never below an earlier one.
\<close>

definition current_time :: "world \<Rightarrow> rat \<times> world" where
  "current_time w =
     (let t = clock w + \<bar>elapse w (reads w)\<bar>
      in (t, w\<lparr>clock := t, reads := Suc (reads w)\<rparr>))"

text \<open>
  \<^verbatim>\<open>time.sleep(secs)\<close>: raises \<^verbatim>\<open>ValueError\<close> for a negative length. While the program
  sleeps the other parties act on the lock table.
\<close>

definition time_sleep :: "rat \<Rightarrow> world \<Rightarrow> (error + unit) \<times> world" where
  "time_sleep secs w =
     (if secs < 0 then (Inl ValueError, w)
      else (Inr (), w\<lparr>clock := clock w + secs,
                          held := others w (sleeps w) (held w),
                          sleeps := Suc (sleeps w),
                          trace := trace w @ [EvSleep secs]\<rparr>))"

text \<open>
  The built-in \<^verbatim>\<open>open(filename, mode)\<close>: the mode has exactly one of \<^verbatim>\<open>r w x a\<close>,
  no repeated character and not both \<^verbatim>\<open>b\<close> and \<^verbatim>\<open>t\<close>; \<^verbatim>\<open>r\<close> needs the file,
  \<^verbatim>\<open>x\<close> refuses an existing one, \<^verbatim>\<open>w\<close> empties the file at once, \<^verbatim>\<open>a\<close>
  keeps its content.
\<close>

definition valid_mode :: "string \<Rightarrow> bool" where
  "valid_mode m =
     (distinct m \<and> list_all (\<lambda>c. c \<in> set ''rwxabt+'') m
      \<and> length (filter (\<lambda>c. c \<in> set ''rwxa'') m) = 1
      \<and> \<not> (CHR ''b'' \<in> set m \<and> CHR ''t'' \<in> set m))"

definition py_open :: "string \<Rightarrow> string \<Rightarrow> world \<Rightarrow> (error + handle) \<times> world" where
  "py_open fname m w =
     (if \<not> valid_mode m then (Inl ValueError, w)
      else if CHR ''r'' \<in> set m \<and> files w fname = None then (Inl OSError, w)
      else if CHR ''x'' \<in> set m \<and> files w fname \<noteq> None then (Inl OSError, w)
      else
        (let h = nfds w;
             content = (if CHR ''w'' \<in> set m then []
                        else (case files w fname of None \<Rightarrow> [] | Some c \<Rightarrow> c))
         in (Inr h, w\<lparr>files := (files w)(fname \<mapsto> content),
                       fds := (fds w)(h \<mapsto> fname),
                       nfds := Suc h,
                       trace := trace w @ [EvOpen h fname]\<rparr>)))"

text \<open>\<^verbatim>\<open>fh.close()\<close>: the handle is gone, and with it any advisory lock it holds.\<close>

definition fh_close :: "handle \<Rightarrow> world \<Rightarrow> world" where
  "fh_close h w =
     w\<lparr>fds := (fds w)(h := None),
       held := filter (\<lambda>p. fst p \<noteq> h) (held w),
       trace := trace w @ [EvClose h]\<rparr>"

text \<open>\<^verbatim>\<open>fh.seek(0); fh.truncate(0)\<close>: \<^verbatim>\<open>ValueError\<close> on a closed file.\<close>

definition fh_truncate :: "handle \<Rightarrow> world \<Rightarrow> (error + unit) \<times> world" where
  "fh_truncate h w =
     (case fds w h of
        None \<Rightarrow> (Inl ValueError, w)
      | Some p \<Rightarrow> (Inr (), w\<lparr>files := (files w)(p \<mapsto> []),
                             trace := trace w @ [EvTruncate h]\<rparr>))"

text \<open>
  Modelled from the spec: the advisory-lock primitive \<^verbatim>\<open>portalocker.lock\<close> and
  \<^verbatim>\<open>portalocker.unlock\<close> of the module \<^verbatim>\<open>portalocker\<close>, which is not among the sources.
  Section 6: \<^verbatim>\<open>lock(handle, flags) -> ok | ContentionError | FatalError\<close>,
  \<^verbatim>\<open>unlock(handle) -> ok\<close>, and a contention error is distinguishable from any other
  failure. The fatal error is an \<^verbatim>\<open>OSError\<close>, raised for the files of \<open>no_locks\<close>
  (a closed handle has \<^verbatim>\<open>ValueError\<close>); the contention error is a \<^verbatim>\<open>LockException\<close>. The lock is contended when another handle on the
  same file holds it incompatibly (two shared holders are compatible). A non-blocking call
  then raises the contention error; a blocking call waits inside the primitive, where the
  program cannot see the time go by, and is a call that has not returned (\<open>None\<close>).
\<close>

definition contended :: "handle \<Rightarrow> bool \<Rightarrow> world \<Rightarrow> bool" where
  "contended h ex w =
     list_ex (\<lambda>p. fst p \<noteq> h \<and> fds w (fst p) = fds w h \<and> (ex \<or> snd p)) (held w)"

definition portalocker_lock ::
  "handle \<Rightarrow> lock_flags \<Rightarrow> world \<Rightarrow> ((error + unit) \<times> world) option" where
  "portalocker_lock h fl w =
     (case fds w h of
        None \<Rightarrow> Some (Inl ValueError, w\<lparr>trace := trace w @ [EvLock h False]\<rparr>)
      | Some p \<Rightarrow>
          if p \<in> set (no_locks w)
          then Some (Inl OSError, w\<lparr>trace := trace w @ [EvLock h False]\<rparr>)
          else if contended h (exclusive fl) w then
            (if non_blocking fl
             then Some (Inl (LockException (ArgPrimitive h)),
                        w\<lparr>trace := trace w @ [EvLock h False]\<rparr>)
             else None)
          else Some (Inr (), w\<lparr>held := (h, exclusive fl) # filter (\<lambda>p. fst p \<noteq> h) (held w),
                                trace := trace w @ [EvLock h True]\<rparr>))"

definition portalocker_unlock :: "handle \<Rightarrow> world \<Rightarrow> world" where
  "portalocker_unlock h w =
     w\<lparr>held := filter (\<lambda>p. fst p \<noteq> h) (held w), trace := trace w @ [EvUnlock h]\<rparr>"

definition holds_lock :: "world \<Rightarrow> handle \<Rightarrow> bool" where
  "holds_lock w h = (h \<in> fst ` set (held w))"

section \<open>Lock\<close>

definition DEFAULT_TIMEOUT :: rat where
  "DEFAULT_TIMEOUT = 5"

definition DEFAULT_CHECK_INTERVAL :: rat where
  "DEFAULT_CHECK_INTERVAL = 1 / 4"

definition LOCK_METHOD :: lock_flags where
  "LOCK_METHOD = \<lparr>exclusive = True, non_blocking = True\<rparr>"

text \<open>
  The fields of \<^verbatim>\<open>Lock\<close>. The field \<^verbatim>\<open>truncate\<close> is \<open>do_truncate\<close> here, and \<^verbatim>\<open>fh\<close>
  is \<open>None\<close> or the (always truthy) file object. \<^verbatim>\<open>file_open_kwargs\<close> is passed through
  to \<^verbatim>\<open>open\<close> and is left out.
\<close>

record Lock =
  fh :: "handle option"
  filename :: string
  mode :: string
  do_truncate :: bool
  timeout :: "rat option"
  check_interval :: rat
  fail_when_locked :: bool
  flags :: lock_flags

text \<open>\<^verbatim>\<open>mode.replace('w', 'a')\<close>\<close>

definition str_replace :: "char \<Rightarrow> char \<Rightarrow> string \<Rightarrow> string" where
  "str_replace a b s = map (\<lambda>c. if c = a then b else c) s"

definition Lock_init ::
  "string \<Rightarrow> string \<Rightarrow> rat option \<Rightarrow> rat \<Rightarrow> bool \<Rightarrow> lock_flags \<Rightarrow> Lock" where
  "Lock_init fname m tmo ci fwl fl =
     (if CHR ''w'' \<in> set m
      then \<lparr>fh = None, filename = fname, mode = str_replace CHR ''w'' CHR ''a'' m,
            do_truncate = True, timeout = tmo, check_interval = ci,
            fail_when_locked = fwl, flags = fl\<rparr>
      else \<lparr>fh = None, filename = fname, mode = m,
            do_truncate = False, timeout = tmo, check_interval = ci,
            fail_when_locked = fwl, flags = fl\<rparr>)"

definition get_fh :: "'a Lock_scheme \<Rightarrow> world \<Rightarrow> (error + handle) \<times> world" where
  "get_fh l w = py_open (filename l) (mode l) w"

definition get_lock ::
  "'a Lock_scheme \<Rightarrow> handle \<Rightarrow> world \<Rightarrow> ((error + handle) \<times> world) option" where
  "get_lock l h w =
     (case portalocker_lock h (flags l) w of
        None \<Rightarrow> None
      | Some (Inl e, w') \<Rightarrow> Some (Inl e, w')
      | Some (Inr u, w') \<Rightarrow> Some (Inr h, w'))"

definition prepare_fh :: "'a Lock_scheme \<Rightarrow> handle \<Rightarrow> world \<Rightarrow> (error + handle) \<times> world" where
  "prepare_fh l h w =
     (if do_truncate l
      then (case fh_truncate h w of
              (Inl e, w') \<Rightarrow> (Inl e, w')
            | (Inr u, w') \<Rightarrow> (Inr h, w'))
      else (Inr h, w))"

text \<open>\<^verbatim>\<open>try_close\<close>: close the handle, ignoring every failure.\<close>

definition try_close :: "handle \<Rightarrow> world \<Rightarrow> world" where
  "try_close h w = fh_close h w"

text \<open>
  One pass of \<^verbatim>\<open>while timeout_end > current_time(): ...\<close> in \<^verbatim>\<open>Lock.acquire\<close>:
  \<open>Break\<close> is the \<^verbatim>\<open>break\<close> after a successful \<^verbatim>\<open>_get_lock\<close>, \<open>Raise\<close> an exception
  leaving \<^verbatim>\<open>acquire\<close> (also the one of the loop's \<^verbatim>\<open>else\<close>), \<open>Again\<close> the next pass
  with the exception saved in \<^verbatim>\<open>exception\<close>, \<open>Stuck\<close> a primitive that does not return.
\<close>

datatype step = Break handle world | Raise error world | Again exc_arg world | Stuck

definition acquire_step ::
  "'a Lock_scheme \<Rightarrow> handle \<Rightarrow> rat \<Rightarrow> rat \<Rightarrow> bool \<Rightarrow> exc_arg \<Rightarrow> world \<Rightarrow> step" where
  "acquire_step l h timeout_end ci fwl exception w =
     (case current_time w of (t, w1) \<Rightarrow>
        if timeout_end > t then
          (case get_lock l h w1 of
             None \<Rightarrow> Stuck
           | Some (Inr h', w2) \<Rightarrow> Break h' w2
           | Some (Inl (LockException a), w2) \<Rightarrow>
               if fwl then Raise (AlreadyLocked (ArgExc (LockException a))) (try_close h w2)
               else (case time_sleep ci w2 of
                       (Inl e, w3) \<Rightarrow> Raise e w3
                     | (Inr u, w3) \<Rightarrow> Again (ArgExc (LockException a)) w3)
           | Some (Inl e, w2) \<Rightarrow> Raise e w2)
        else Raise (LockException exception) (try_close h w1))"

text \<open>
  The loop. It runs for ever when the clock never reaches \<^verbatim>\<open>timeout_end\<close>, so the
  number of further passes is bounded by \<open>fuel\<close>, and \<open>None\<close> is a run that has not
  returned within it.
\<close>

fun acquire_loop ::
  "nat \<Rightarrow> 'a Lock_scheme \<Rightarrow> handle \<Rightarrow> rat \<Rightarrow> rat \<Rightarrow> bool \<Rightarrow> exc_arg \<Rightarrow> world
     \<Rightarrow> ((error + handle) \<times> world) option" where
  "acquire_loop fuel l h timeout_end ci fwl exception w =
     (case acquire_step l h timeout_end ci fwl exception w of
        Break h' w' \<Rightarrow> Some (Inr h', w')
      | Raise e w' \<Rightarrow> Some (Inl e, w')
      | Stuck \<Rightarrow> None
      | Again exception' w' \<Rightarrow>
          (case fuel of
             0 \<Rightarrow> None
           | Suc n \<Rightarrow> acquire_loop n l h timeout_end ci fwl exception' w'))"

definition resolve :: "'a option \<Rightarrow> 'a \<Rightarrow> 'a" where
  "resolve arg dflt = (case arg of None \<Rightarrow> dflt | Some v \<Rightarrow> v)"

definition Lock_acquire ::
  "nat \<Rightarrow> 'a Lock_scheme \<Rightarrow> rat option \<Rightarrow> rat option \<Rightarrow> bool option \<Rightarrow> world
     \<Rightarrow> ((error + handle) \<times> 'a Lock_scheme \<times> world) option" where
  "Lock_acquire fuel l timeout_arg check_interval_arg fail_when_locked_arg w =
     (let timeout1 = (case timeout_arg of None \<Rightarrow> timeout l | Some t \<Rightarrow> Some t);
          timeout2 = (case timeout1 of None \<Rightarrow> 0 | Some t \<Rightarrow> t);
          ci = resolve check_interval_arg (check_interval l);
          fwl = resolve fail_when_locked_arg (fail_when_locked l)
      in case fh l of
           Some h \<Rightarrow> Some (Inr h, l, w)
         | None \<Rightarrow>
             (case get_fh l w of
                (Inl e, w0) \<Rightarrow> Some (Inl e, l, w0)
              | (Inr h, w0) \<Rightarrow>
                  (case current_time w0 of (t0, w1) \<Rightarrow>
                     (case acquire_loop fuel l h (t0 + timeout2) ci fwl ArgNone w1 of
                        None \<Rightarrow> None
                      | Some (Inl e, w2) \<Rightarrow> Some (Inl e, l, w2)
                      | Some (Inr h', w2) \<Rightarrow>
                          (case prepare_fh l h' w2 of
                             (Inl e, w3) \<Rightarrow> Some (Inl e, l, w3)
                           | (Inr h'', w3) \<Rightarrow> Some (Inr h'', l\<lparr>fh := Some h''\<rparr>, w3))))))"

definition Lock_release :: "'a Lock_scheme \<Rightarrow> world \<Rightarrow> (error + unit) \<times> 'a Lock_scheme \<times> world" where
  "Lock_release l w =
     (case fh l of
        Some h \<Rightarrow> (Inr (), l\<lparr>fh := None\<rparr>, fh_close h (portalocker_unlock h w))
      | None \<Rightarrow> (Inr (), l, w))"

section \<open>RLock\<close>

record RLock = Lock +
  acquire_count :: int

definition RLock_init ::
  "string \<Rightarrow> string \<Rightarrow> rat option \<Rightarrow> rat \<Rightarrow> bool \<Rightarrow> lock_flags \<Rightarrow> RLock" where
  "RLock_init fname m tmo ci fwl fl =
     (let l = Lock_init fname m tmo ci fwl fl
      in \<lparr>fh = fh l, filename = filename l, mode = mode l, do_truncate = do_truncate l,
          timeout = timeout l, check_interval = check_interval l,
          fail_when_locked = fail_when_locked l, flags = flags l, acquire_count = 0\<rparr>)"

text \<open>\<^verbatim>\<open>RLock.acquire\<close> returns \<^verbatim>\<open>self.fh\<close> as it is when the count is at least one.\<close>

definition RLock_acquire ::
  "nat \<Rightarrow> RLock \<Rightarrow> rat option \<Rightarrow> rat option \<Rightarrow> bool option \<Rightarrow> world
     \<Rightarrow> ((error + handle option) \<times> RLock \<times> world) option" where
  "RLock_acquire fuel l timeout_arg check_interval_arg fail_when_locked_arg w =
     (if acquire_count l \<ge> 1
      then Some (Inr (fh l), l\<lparr>acquire_count := acquire_count l + 1\<rparr>, w)
      else (case Lock_acquire fuel l timeout_arg check_interval_arg fail_when_locked_arg w of
              None \<Rightarrow> None
            | Some (Inl e, l', w') \<Rightarrow> Some (Inl e, l', w')
            | Some (Inr h, l', w') \<Rightarrow>
                Some (Inr (Some h), l'\<lparr>acquire_count := acquire_count l' + 1\<rparr>, w')))"

definition RLock_release :: "RLock \<Rightarrow> world \<Rightarrow> (error + unit) \<times> RLock \<times> world" where
  "RLock_release l w =
     (if acquire_count l = 0
      then (Inl (LockException (ArgText ''Cannot release more times than acquired'')), l, w)
      else if acquire_count l = 1
      then (case Lock_release l w of
              (Inl e, l', w') \<Rightarrow> (Inl e, l', w')
            | (Inr u, l', w') \<Rightarrow> (Inr (), l'\<lparr>acquire_count := acquire_count l' - 1\<rparr>, w'))
      else (Inr (), l\<lparr>acquire_count := acquire_count l - 1\<rparr>, w))"

section \<open>TemporaryFileLock\<close>

text \<open>
  A \<^verbatim>\<open>Lock\<close> with no field of its own, opened with mode \<^verbatim>\<open>'w'\<close>; its constructor
  registers \<^verbatim>\<open>self.release\<close> with \<^verbatim>\<open>atexit\<close>, kept here as the file name.
\<close>

definition TemporaryFileLock_init ::
  "string \<Rightarrow> rat option \<Rightarrow> rat \<Rightarrow> bool \<Rightarrow> lock_flags \<Rightarrow> world \<Rightarrow> Lock \<times> world" where
  "TemporaryFileLock_init fname tmo ci fwl fl w =
     (Lock_init fname ''w'' tmo ci fwl fl, w\<lparr>atexit := atexit w @ [fname]\<rparr>)"

definition os_unlink :: "string \<Rightarrow> world \<Rightarrow> world" where
  "os_unlink p w = w\<lparr>files := (files w)(p := None), trace := trace w @ [EvUnlink p]\<rparr>"

definition TemporaryFileLock_release :: "Lock \<Rightarrow> world \<Rightarrow> (error + unit) \<times> Lock \<times> world" where
  "TemporaryFileLock_release l w =
     (case Lock_release l w of
        (Inl e, l', w') \<Rightarrow> (Inl e, l', w')
      | (Inr u, l', w') \<Rightarrow>
          (if files w' (filename l') \<noteq> None
           then (Inr (), l', os_unlink (filename l') w')
           else (Inr (), l', w')))"

section \<open>BoundedSemaphore\<close>

text \<open>
  \<^verbatim>\<open>filename_pattern\<close> is the format string; the field holds what
  \<^verbatim>\<open>filename_pattern.format(name=..., number=...)\<close> computes. The field \<^verbatim>\<open>lock\<close> is
  \<^verbatim>\<open>None\<close> or a \<^verbatim>\<open>Lock\<close> object, which is truthy whatever its state.
\<close>

record BoundedSemaphore =
  maximum :: int
  name :: string
  filename_pattern :: "string \<Rightarrow> nat \<Rightarrow> string"
  directory :: string
  lock :: "Lock option"
  sem_timeout :: "rat option"
  sem_check_interval :: rat

fun decimal :: "nat \<Rightarrow> string" where
  "decimal n = (if n < 10 then [''0123456789'' ! n]
                else decimal (n div 10) @ [''0123456789'' ! (n mod 10)])"

text \<open>\<^verbatim>\<open>'{name}.{number:02d}.lock'\<close>\<close>

definition default_pattern :: "string \<Rightarrow> nat \<Rightarrow> string" where
  "default_pattern nm number =
     nm @ ''.'' @ replicate (2 - length (decimal number)) CHR ''0'' @ decimal number @ ''.lock''"

definition BoundedSemaphore_init ::
  "int \<Rightarrow> string \<Rightarrow> (string \<Rightarrow> nat \<Rightarrow> string) \<Rightarrow> string \<Rightarrow> rat option \<Rightarrow> rat
     \<Rightarrow> BoundedSemaphore" where
  "BoundedSemaphore_init mx nm pat dir tmo ci =
     \<lparr>maximum = mx, name = nm, filename_pattern = pat, directory = dir, lock = None,
      sem_timeout = tmo, sem_check_interval = ci\<rparr>"

text \<open>\<^verbatim>\<open>pathlib.Path(directory) / name\<close>, for a directory written without a trailing slash.\<close>

definition path_join :: "string \<Rightarrow> string \<Rightarrow> string" where
  "path_join dir nm = (if dir = [] then nm else dir @ ''/'' @ nm)"

definition get_filename :: "BoundedSemaphore \<Rightarrow> nat \<Rightarrow> string" where
  "get_filename s number = path_join (directory s) (filename_pattern s (name s) number)"

definition get_filenames :: "BoundedSemaphore \<Rightarrow> string list" where
  "get_filenames s = map (get_filename s) [0 ..< nat (maximum s)]"

text \<open>
  \<^verbatim>\<open>random.shuffle\<close>: for \<open>i\<close> from the last index down to 1, swap the entries at \<open>i\<close>
  and at a random index below \<open>i + 1\<close>, drawn from the random source of the world.
\<close>

definition randbelow :: "nat \<Rightarrow> world \<Rightarrow> nat \<times> world" where
  "randbelow n w = (rng w (rng_pos w) mod n, w\<lparr>rng_pos := Suc (rng_pos w)\<rparr>)"

fun shuffle_from :: "nat \<Rightarrow> 'a list \<Rightarrow> world \<Rightarrow> 'a list \<times> world" where
  "shuffle_from 0 xs w = (xs, w)"
| "shuffle_from (Suc i) xs w =
     (case randbelow (Suc i + 1) w of
        (j, w') \<Rightarrow> shuffle_from i (xs[Suc i := xs ! j, j := xs ! Suc i]) w')"

definition random_shuffle :: "'a list \<Rightarrow> world \<Rightarrow> 'a list \<times> world" where
  "random_shuffle xs w = shuffle_from (length xs - 1) xs w"

definition get_random_filenames :: "BoundedSemaphore \<Rightarrow> world \<Rightarrow> string list \<times> world" where
  "get_random_filenames s w = random_shuffle (get_filenames s) w"

text \<open>
  \<^verbatim>\<open>try_lock\<close>: the \<^verbatim>\<open>Lock\<close> of every candidate is stored in \<^verbatim>\<open>self.lock\<close> before it is
  acquired; \<^verbatim>\<open>AlreadyLocked\<close> moves on to the next candidate, any other exception leaves
  the method. Falling off the loop returns \<^verbatim>\<open>None\<close>, which is false.
\<close>

fun try_lock ::
  "nat \<Rightarrow> BoundedSemaphore \<Rightarrow> string list \<Rightarrow> world
     \<Rightarrow> ((error + bool) \<times> BoundedSemaphore \<times> world) option" where
  "try_lock fuel s [] w = Some (Inr False, s, w)"
| "try_lock fuel s (f # fs) w =
     (case Lock_acquire fuel
             (Lock_init f ''a'' (Some DEFAULT_TIMEOUT) DEFAULT_CHECK_INTERVAL True LOCK_METHOD)
             None None None w of
        None \<Rightarrow> None
      | Some (Inr h, l', w') \<Rightarrow> Some (Inr True, s\<lparr>lock := Some l'\<rparr>, w')
      | Some (Inl (AlreadyLocked a), l', w') \<Rightarrow> try_lock fuel (s\<lparr>lock := Some l'\<rparr>) fs w'
      | Some (Inl e, l', w') \<Rightarrow> Some (Inl e, s\<lparr>lock := Some l'\<rparr>, w'))"

text \<open>The polling loop of \<^verbatim>\<open>BoundedSemaphore.acquire\<close>, with fuel as in \<open>acquire_loop\<close>.\<close>

fun semaphore_loop ::
  "nat \<Rightarrow> BoundedSemaphore \<Rightarrow> string list \<Rightarrow> rat \<Rightarrow> rat \<Rightarrow> world
     \<Rightarrow> ((error + Lock option) \<times> BoundedSemaphore \<times> world) option" where
  "semaphore_loop fuel s filenames timeout_end ci w =
     (case current_time w of (t, w1) \<Rightarrow>
        if timeout_end > t then
          (case try_lock fuel s filenames w1 of
             None \<Rightarrow> None
           | Some (Inl e, s', w2) \<Rightarrow> Some (Inl e, s', w2)
           | Some (Inr True, s', w2) \<Rightarrow> Some (Inr (lock s'), s', w2)
           | Some (Inr False, s', w2) \<Rightarrow>
               (case time_sleep ci w2 of
                  (Inl e, w3) \<Rightarrow> Some (Inl e, s', w3)
                | (Inr u, w3) \<Rightarrow>
                    (case fuel of
                       0 \<Rightarrow> None
                     | Suc n \<Rightarrow> semaphore_loop n s' filenames timeout_end ci w3)))
        else Some (Inl (AlreadyLocked NoArgs), s, w1))"

definition BoundedSemaphore_acquire ::
  "nat \<Rightarrow> BoundedSemaphore \<Rightarrow> rat option \<Rightarrow> rat option \<Rightarrow> world
     \<Rightarrow> ((error + Lock option) \<times> BoundedSemaphore \<times> world) option" where
  "BoundedSemaphore_acquire fuel s timeout_arg check_interval_arg w =
     (if lock s \<noteq> None then Some (Inl (AssertionError ''Already locked''), s, w)
      else
        (let timeout1 = (case timeout_arg of None \<Rightarrow> sem_timeout s | Some t \<Rightarrow> Some t);
             timeout2 = (case timeout1 of None \<Rightarrow> 0 | Some t \<Rightarrow> t);
             ci = resolve check_interval_arg (sem_check_interval s);
             filenames = get_filenames s
         in case try_lock fuel s filenames w of
              None \<Rightarrow> None
            | Some (Inl e, s', w') \<Rightarrow> Some (Inl e, s', w')
            | Some (Inr True, s', w') \<Rightarrow> Some (Inr (lock s'), s', w')
            | Some (Inr False, s', w') \<Rightarrow>
                (if timeout2 = 0 then Some (Inl (AlreadyLocked NoArgs), s', w')
                 else (case current_time w' of (t0, w1) \<Rightarrow>
                         semaphore_loop fuel s' filenames (t0 + timeout2) ci w1))))"

definition BoundedSemaphore_release ::
  "BoundedSemaphore \<Rightarrow> world \<Rightarrow> (error + unit) \<times> BoundedSemaphore \<times> world" where
  "BoundedSemaphore_release s w =
     (case lock s of
        None \<Rightarrow> (Inl AttributeError, s, w)
      | Some l \<Rightarrow>
          (case Lock_release l w of
             (Inl e, l', w') \<Rightarrow> (Inl e, s\<lparr>lock := Some l'\<rparr>, w')
           | (Inr u, l', w') \<Rightarrow> (Inr (), s\<lparr>lock := None\<rparr>, w')))"

section \<open>LockBase: the scoped form\<close>

text \<open>
  \<^verbatim>\<open>LockBase\<close> is abstract in \<^verbatim>\<open>acquire\<close> and \<^verbatim>\<open>release\<close>; a class is the pair of its
  two methods. \<^verbatim>\<open>__enter__\<close> and \<^verbatim>\<open>__exit__\<close> are inherited by every class.
\<close>

record ('s, 'r) LockBase =
  acquire :: "nat \<Rightarrow> 's \<Rightarrow> rat option \<Rightarrow> rat option \<Rightarrow> bool option \<Rightarrow> world
                \<Rightarrow> ((error + 'r) \<times> 's \<times> world) option"
  release :: "'s \<Rightarrow> world \<Rightarrow> (error + unit) \<times> 's \<times> world"

definition LockBase_enter ::
  "('s, 'r) LockBase \<Rightarrow> nat \<Rightarrow> 's \<Rightarrow> world \<Rightarrow> ((error + 'r) \<times> 's \<times> world) option" where
  "LockBase_enter cls fuel self w = acquire cls fuel self None None None w"

definition LockBase_exit ::
  "('s, 'r) LockBase \<Rightarrow> 's \<Rightarrow> world \<Rightarrow> (error + unit) \<times> 's \<times> world" where
  "LockBase_exit cls self w = release cls self w"

definition Lock_class :: "(Lock, handle) LockBase" where
  "Lock_class = \<lparr>acquire = Lock_acquire, release = Lock_release\<rparr>"

definition RLock_class :: "(RLock, handle option) LockBase" where
  "RLock_class = \<lparr>acquire = RLock_acquire, release = RLock_release\<rparr>"

definition TemporaryFileLock_class :: "(Lock, handle) LockBase" where
  "TemporaryFileLock_class = \<lparr>acquire = Lock_acquire, release = TemporaryFileLock_release\<rparr>"

definition BoundedSemaphore_class :: "(BoundedSemaphore, Lock option) LockBase" where
  "BoundedSemaphore_class =
     \<lparr>acquire = (\<lambda>fuel s t c f w. BoundedSemaphore_acquire fuel s t c w),
      release = BoundedSemaphore_release\<rparr>"

text \<open>
  The statement \<^verbatim>\<open>with obj as x: body\<close> of the language: \<^verbatim>\<open>__enter__\<close>, then the body,
  which may change the object and the world and may raise, then \<^verbatim>\<open>__exit__\<close> whatever
  the body did. \<^verbatim>\<open>__exit__\<close> returns \<^verbatim>\<open>None\<close>, so an exception of the body goes on,
  unless \<^verbatim>\<open>__exit__\<close> raises one itself. An exception of \<^verbatim>\<open>__enter__\<close> skips both.
\<close>

definition with_statement ::
  "('s, 'r) LockBase \<Rightarrow> nat \<Rightarrow> 's \<Rightarrow> ('r \<Rightarrow> 's \<Rightarrow> world \<Rightarrow> (error + 'b) \<times> 's \<times> world) \<Rightarrow> world
     \<Rightarrow> ((error + 'b) \<times> 's \<times> world) option" where
  "with_statement cls fuel self body w =
     (case LockBase_enter cls fuel self w of
        None \<Rightarrow> None
      | Some (Inl e, s1, w1) \<Rightarrow> Some (Inl e, s1, w1)
      | Some (Inr r, s1, w1) \<Rightarrow>
          (case body r s1 w1 of
             (res, s2, w2) \<Rightarrow>
               (case LockBase_exit cls s2 w2 of
                  (Inl e, s3, w3) \<Rightarrow> Some (Inl e, s3, w3)
                | (Inr u, s3, w3) \<Rightarrow> Some (res, s3, w3))))"

section \<open>open\_atomic\<close>

text \<open>
  \<^verbatim>\<open>open_atomic\<close> takes no lock, so its file system is a state of its own: the files with
  their content, the directories, the names that \<^verbatim>\<open>tempfile\<close> will try in turn, the
  operations that fail with \<^verbatim>\<open>OSError\<close> when they are called, and how many of the bytes
  written through a buffered handle reach the file before the handle is flushed.
\<close>

datatype fs_op = OpMakedirs | OpCreate | OpFlush | OpFsync | OpClose | OpRename | OpRemove

record filesys =
  fs_files :: "string \<rightharpoonup> string"
  fs_dirs :: "string list"
  tmp_names :: "string list"
  faults :: "fs_op list"
  early :: nat

text \<open>The object \<^verbatim>\<open>temp_fh\<close>: its \<^verbatim>\<open>name\<close> and the bytes still in its buffer.\<close>

record temp_file =
  tf_name :: string
  tf_buffer :: string

text \<open>
  \<^verbatim>\<open>'%r' % filename\<close>, the \<^verbatim>\<open>repr\<close> of a string: in single quotes, or in double quotes
  when the string has a single quote and no double quote; the backslash, the enclosing
  quote, newline, carriage return and tab are escaped with a backslash, and the other
  control characters are written \<^verbatim>\<open>\xNN\<close>. Characters beyond ASCII are taken to be
  printable and stay as they are.
\<close>

definition hex2 :: "nat \<Rightarrow> string" where
  "hex2 n = [''0123456789abcdef'' ! (n div 16), ''0123456789abcdef'' ! (n mod 16)]"

definition repr_char :: "char \<Rightarrow> char \<Rightarrow> string" where
  "repr_char q c =
     (if c = CHR 0x5C then [CHR 0x5C, CHR 0x5C]
      else if c = q then [CHR 0x5C, q]
      else if c = CHR 0x0A then [CHR 0x5C, CHR ''n'']
      else if c = CHR 0x0D then [CHR 0x5C, CHR ''r'']
      else if c = CHR 0x09 then [CHR 0x5C, CHR ''t'']
      else if (of_char c :: nat) < 32 then [CHR 0x5C, CHR ''x''] @ hex2 (of_char c)
      else if (of_char c :: nat) = 127 then [CHR 0x5C, CHR ''x''] @ hex2 (of_char c)
      else [c])"

definition py_repr :: "string \<Rightarrow> string" where
  "py_repr s =
     (let q = (if CHR 0x27 \<in> set s \<and> CHR 0x22 \<notin> set s then CHR 0x22 else CHR 0x27)
      in [q] @ concat (map (repr_char q) s) @ [q])"

definition os_path_exists :: "filesys \<Rightarrow> string \<Rightarrow> bool" where
  "os_path_exists fs p = (if fs_files fs p = None then p \<in> set (fs_dirs fs) else True)"

definition os_path_isdir :: "filesys \<Rightarrow> string \<Rightarrow> bool" where
  "os_path_isdir fs p = (p \<in> set (fs_dirs fs))"

text \<open>\<^verbatim>\<open>posixpath.split\<close>: cut after the last slash, and strip the slashes that end the head
  unless it is made of slashes only.\<close>

definition os_path_split :: "string \<Rightarrow> string \<times> string" where
  "os_path_split p =
     (let tail = rev (takeWhile (\<lambda>c. c \<noteq> CHR ''/'') (rev p));
          head = take (length p - length tail) p
      in (if head \<noteq> [] \<and> \<not> list_all (\<lambda>c. c = CHR ''/'') head
          then rev (dropWhile (\<lambda>c. c = CHR ''/'') (rev head))
          else head,
          tail))"

definition os_path_join :: "string \<Rightarrow> string \<Rightarrow> string" where
  "os_path_join dir nm =
     (if dir = [] then nm else if last dir = CHR ''/'' then dir @ nm else dir @ ''/'' @ nm)"

text \<open>
  \<^verbatim>\<open>os.makedirs(path)\<close>: raises when the path, or one of the directories above it, is a
  regular file (and for the reasons of the fault list); creates the directory otherwise.
\<close>

definition above :: "string \<Rightarrow> string list" where
  "above p = map (\<lambda>i. take i p) (filter (\<lambda>i. 0 < i \<and> p ! i = CHR ''/'') [0 ..< length p])"

definition os_makedirs :: "string \<Rightarrow> filesys \<Rightarrow> (error + unit) \<times> filesys" where
  "os_makedirs p fs =
     (if OpMakedirs \<in> set (faults fs) then (Inl OSError, fs)
      else if list_ex (\<lambda>q. fs_files fs q \<noteq> None) (p # above p) then (Inl OSError, fs)
      else (Inr (), fs\<lparr>fs_dirs := p # fs_dirs fs\<rparr>))"

text \<open>
  \<^verbatim>\<open>tempfile.NamedTemporaryFile(mode, dir=path, delete=False)\<close>: raises when the directory
  does not exist (an empty \<^verbatim>\<open>dir\<close> is the current directory); the first candidate name
  that does not exist in the directory is created empty, and \<^verbatim>\<open>FileExistsError\<close> is
  raised when every candidate exists.
\<close>

definition NamedTemporaryFile ::
  "string \<Rightarrow> string \<Rightarrow> filesys \<Rightarrow> (error + temp_file) \<times> filesys" where
  "NamedTemporaryFile md dir fs =
     (if OpCreate \<in> set (faults fs) then (Inl OSError, fs)
      else if dir \<noteq> [] \<and> \<not> os_path_isdir fs dir then (Inl OSError, fs)
      else
        (case filter (\<lambda>n. \<not> os_path_exists fs (os_path_join dir n)) (tmp_names fs) of
           [] \<Rightarrow> (Inl OSError, fs)
         | n # ns \<Rightarrow> (Inr \<lparr>tf_name = os_path_join dir n, tf_buffer = []\<rparr>,
                      fs\<lparr>fs_files := (fs_files fs)(os_path_join dir n \<mapsto> [])\<rparr>)))"

definition on_disk :: "filesys \<Rightarrow> string \<Rightarrow> string" where
  "on_disk fs p = (case fs_files fs p of None \<Rightarrow> [] | Some c \<Rightarrow> c)"

text \<open>
  \<^verbatim>\<open>fh.write(d)\<close> on the buffered handle: of the bytes now waiting, the first
  \<open>early fs\<close> go to the file and the rest stay in the buffer. \<^verbatim>\<open>fh.flush()\<close> sends
  the buffer to the file.
\<close>

definition fh_write :: "string \<Rightarrow> temp_file \<Rightarrow> filesys \<Rightarrow> temp_file \<times> filesys" where
  "fh_write d tf fs =
     (tf\<lparr>tf_buffer := drop (early fs) (tf_buffer tf @ d)\<rparr>,
      fs\<lparr>fs_files := (fs_files fs)(tf_name tf \<mapsto>
             on_disk fs (tf_name tf) @ take (early fs) (tf_buffer tf @ d))\<rparr>)"

definition fh_flush :: "temp_file \<Rightarrow> filesys \<Rightarrow> (error + unit) \<times> temp_file \<times> filesys" where
  "fh_flush tf fs =
     (if OpFlush \<in> set (faults fs) then (Inl OSError, tf, fs)
      else (Inr (), tf\<lparr>tf_buffer := []\<rparr>,
            fs\<lparr>fs_files := (fs_files fs)(tf_name tf \<mapsto> on_disk fs (tf_name tf) @ tf_buffer tf)\<rparr>))"

definition fault :: "fs_op \<Rightarrow> filesys \<Rightarrow> (error + unit) \<times> filesys" where
  "fault op fs = (if op \<in> set (faults fs) then (Inl OSError, fs) else (Inr (), fs))"

text \<open>
  \<^verbatim>\<open>os.rename(src, dst)\<close>: raises when the target names a directory (it is one, or its
  last component is empty, \<^verbatim>\<open>.\<close> or \<^verbatim>\<open>..\<close>, which covers the empty path and a path
  that ends with a slash) and when the source does not exist; replaces the target
  otherwise.
\<close>

definition rename_refused :: "string \<Rightarrow> filesys \<Rightarrow> bool" where
  "rename_refused dst fs =
     (OpRename \<in> set (faults fs)
      \<or> snd (os_path_split dst) \<in> set [[], ''.'', ''..'']
      \<or> os_path_isdir fs dst)"

definition os_rename :: "string \<Rightarrow> string \<Rightarrow> filesys \<Rightarrow> (error + unit) \<times> filesys" where
  "os_rename src dst fs =
     (if rename_refused dst fs then (Inl OSError, fs)
      else (case fs_files fs src of
              None \<Rightarrow> (Inl OSError, fs)
            | Some c \<Rightarrow> (Inr (), fs\<lparr>fs_files := (fs_files fs)(src := None, dst \<mapsto> c)\<rparr>)))"

definition os_remove :: "string \<Rightarrow> filesys \<Rightarrow> (error + unit) \<times> filesys" where
  "os_remove p fs =
     (if OpRemove \<in> set (faults fs) then (Inl OSError, fs)
      else (case fs_files fs p of
              None \<Rightarrow> (Inl OSError, fs)
            | Some c \<Rightarrow> (Inr (), fs\<lparr>fs_files := (fs_files fs)(p := None)\<rparr>)))"

text \<open>
  The body of the \<^verbatim>\<open>with open_atomic(...) as fh\<close> block: the bytes it writes through the
  handle, and whether it then completes or raises.
\<close>

datatype scope_body = Writes string | WritesThenRaises string error

fun run_body ::
  "scope_body \<Rightarrow> temp_file \<Rightarrow> filesys \<Rightarrow> (error + unit) \<times> temp_file \<times> filesys" where
  "run_body (Writes d) tf fs = (Inr (), fh_write d tf fs)"
| "run_body (WritesThenRaises d e) tf fs = (Inl e, fh_write d tf fs)"

text \<open>The generator up to its \<^verbatim>\<open>yield\<close>.\<close>

definition open_atomic_setup ::
  "string \<Rightarrow> bool \<Rightarrow> filesys \<Rightarrow> (error + temp_file) \<times> filesys" where
  "open_atomic_setup fname binary fs =
     (if os_path_exists fs fname then (Inl (AssertionError (py_repr fname @ '' exists'')), fs)
      else
        (case os_path_split fname of
           (path, nm) \<Rightarrow>
             (case (if path \<noteq> [] \<and> \<not> os_path_isdir fs path then os_makedirs path fs
                    else (Inr (), fs)) of
                (Inl e, fs1) \<Rightarrow> (Inl e, fs1)
              | (Inr u, fs1) \<Rightarrow>
                  NamedTemporaryFile (if binary then ''wb'' else ''w'') path fs1)))"

text \<open>
  The generator after its \<^verbatim>\<open>yield\<close>: flush, fsync and close outside the \<^verbatim>\<open>try\<close>, then
  the rename with its \<^verbatim>\<open>finally\<close>, whose \<^verbatim>\<open>os.remove\<close> has its exception swallowed.
\<close>

definition open_atomic_finish ::
  "temp_file \<Rightarrow> string \<Rightarrow> filesys \<Rightarrow> (error + unit) \<times> filesys" where
  "open_atomic_finish tf fname fs =
     (case fh_flush tf fs of
        (Inl e, tf1, fs1) \<Rightarrow> (Inl e, fs1)
      | (Inr u, tf1, fs1) \<Rightarrow>
          (case fault OpFsync fs1 of
             (Inl e, fs2) \<Rightarrow> (Inl e, fs2)
           | (Inr u, fs2) \<Rightarrow>
               (case fault OpClose fs2 of
                  (Inl e, fs3) \<Rightarrow> (Inl e, fs3)
                | (Inr u, fs3) \<Rightarrow>
                    (case os_rename (tf_name tf1) fname fs3 of
                       (r, fs4) \<Rightarrow> (r, snd (os_remove (tf_name tf1) fs4))))))"

text \<open>
  \<^verbatim>\<open>with open_atomic(filename, binary) as fh: body\<close>. The \<^verbatim>\<open>yield\<close> is in no \<^verbatim>\<open>try\<close>,
  so an exception of the body leaves the generator there.
\<close>

definition open_atomic ::
  "string \<Rightarrow> bool \<Rightarrow> scope_body \<Rightarrow> filesys \<Rightarrow> (error + unit) \<times> filesys" where
  "open_atomic fname binary body fs =
     (case open_atomic_setup fname binary fs of
        (Inl e, fs1) \<Rightarrow> (Inl e, fs1)
      | (Inr tf, fs1) \<Rightarrow>
          (case run_body body tf fs1 of
             (Inl e, tf2, fs2) \<Rightarrow> (Inl e, fs2)
           | (Inr u, tf2, fs2) \<Rightarrow> open_atomic_finish tf2 fname fs2))"

section \<open>Vocabulary of the properties\<close>

text \<open>
  What a file object shows once it is opened with a mode: nothing for \<^verbatim>\<open>w\<close>, the
  content of the file otherwise.
\<close>

definition opened_content :: "string \<Rightarrow> string \<Rightarrow> world \<Rightarrow> string" where
  "opened_content fname m w =
     (if CHR ''w'' \<in> set m then [] else (case files w fname of None \<Rightarrow> [] | Some c \<Rightarrow> c))"

text \<open>
  The events of a lock that is waiting: failed attempts on the handle, and sleeps.
\<close>

fun is_wait :: "handle \<Rightarrow> event \<Rightarrow> bool" where
  "is_wait h (EvLock h' ok) = (h' = h \<and> \<not> ok)"
| "is_wait h (EvSleep d) = True"
| "is_wait h e = False"

text \<open>
  Concrete worlds and objects for the examples: a world where nothing exists and no time
  goes by between two readings of the clock, a world where the handle 0 of another party
  holds the exclusive lock of the file \<^verbatim>\<open>f\<close>, whose content is \<^verbatim>\<open>spam\<close>, the same world
  where that party releases its lock during the first sleep of the program, and the world
  that \<open>lock5\<close> is left in once it holds the lock. \<open>outcome\<close> keeps of a result the
  returned value, the handle of the object and the trace.
\<close>

definition idle_world :: world where
  "idle_world =
     \<lparr>clock = 0, elapse = (\<lambda>k. 0), reads = 0, files = Map.empty, fds = Map.empty, nfds = 0,
      held = [], trace = [], rng = (\<lambda>k. 0), rng_pos = 0, atexit = [],
      others = (\<lambda>k hs. hs), sleeps = 0, no_locks = []\<rparr>"

definition busy_world :: world where
  "busy_world =
     \<lparr>clock = 0, elapse = (\<lambda>k. 0), reads = 0, files = [''f'' \<mapsto> ''spam''],
      fds = [0 \<mapsto> ''f''], nfds = 1, held = [(0, True)], trace = [],
      rng = (\<lambda>k. 0), rng_pos = 0, atexit = [],
      others = (\<lambda>k hs. hs), sleeps = 0, no_locks = []\<rparr>"

definition handover_world :: world where
  "handover_world =
     busy_world\<lparr>others := (\<lambda>k hs. if k = 0 then filter (\<lambda>p. fst p \<noteq> 0) hs else hs)\<rparr>"

definition outcome ::
  "((error + 'r) \<times> 'a Lock_scheme \<times> world) option
     \<Rightarrow> ((error + 'r) \<times> handle option \<times> event list) option" where
  "outcome res = map_option (\<lambda>(r, l, w). (r, fh l, trace w)) res"

definition lock5 :: Lock where
  "lock5 = Lock_init ''f'' ''w'' (Some DEFAULT_TIMEOUT) DEFAULT_CHECK_INTERVAL False LOCK_METHOD"

definition locked_world :: world where
  "locked_world =
     \<lparr>clock = 0, elapse = (\<lambda>k. 0), reads = 2, files = [''f'' \<mapsto> []],
      fds = [0 \<mapsto> ''f''], nfds = 1, held = [(0, True)],
      trace = [EvOpen 0 ''f'', EvLock 0 True, EvTruncate 0],
      rng = (\<lambda>k. 0), rng_pos = 0, atexit = [],
      others = (\<lambda>k hs. hs), sleeps = 0, no_locks = []\<rparr>"

definition rlock0 :: RLock where
  "rlock0 = RLock_init ''f'' ''a'' (Some DEFAULT_TIMEOUT) DEFAULT_CHECK_INTERVAL False LOCK_METHOD"

text \<open>
  The invariant of a reentrant lock, and the drivers that call \<^verbatim>\<open>acquire()\<close> and
  \<^verbatim>\<open>release()\<close> a number of times in a row; a driver gives \<open>None\<close> as soon as one
  call raises or does not return.
\<close>

definition RLock_inv :: "RLock \<Rightarrow> bool" where
  "RLock_inv l = (0 \<le> acquire_count l \<and> (0 < acquire_count l) = (fh l \<noteq> None))"

fun acquire_times :: "nat \<Rightarrow> nat \<Rightarrow> RLock \<Rightarrow> world \<Rightarrow> (RLock \<times> world) option" where
  "acquire_times 0 fuel l w = Some (l, w)"
| "acquire_times (Suc n) fuel l w =
     (case RLock_acquire fuel l None None None w of
        Some (Inr r, l', w') \<Rightarrow> acquire_times n fuel l' w'
      | Some (Inl e, l', w') \<Rightarrow> None
      | None \<Rightarrow> None)"

fun release_times :: "nat \<Rightarrow> RLock \<Rightarrow> world \<Rightarrow> (RLock \<times> world) option" where
  "release_times 0 l w = Some (l, w)"
| "release_times (Suc n) l w =
     (case RLock_release l w of
        (Inr u, l', w') \<Rightarrow> release_times n l' w'
      | (Inl e, l', w') \<Rightarrow> None)"

text \<open>
  Semaphores of one and of two permits in the current directory, a world where both
  candidate files are locked by handles of other parties, and the part of a semaphore's
  result that the examples show: the file of the returned lock, whether \<^verbatim>\<open>self.lock\<close>
  is \<^verbatim>\<open>None\<close>, the trace, and how many random numbers have been drawn.
\<close>

definition sem1 :: BoundedSemaphore where
  "sem1 = BoundedSemaphore_init 1 ''bounded_semaphore'' default_pattern [] (Some DEFAULT_TIMEOUT)
            DEFAULT_CHECK_INTERVAL"

definition sem2 :: BoundedSemaphore where
  "sem2 = BoundedSemaphore_init 2 ''bounded_semaphore'' default_pattern [] (Some DEFAULT_TIMEOUT)
            DEFAULT_CHECK_INTERVAL"

definition full_world :: world where
  "full_world =
     \<lparr>clock = 0, elapse = (\<lambda>k. 0), reads = 0,
      files = [''bounded_semaphore.00.lock'' \<mapsto> [], ''bounded_semaphore.01.lock'' \<mapsto> []],
      fds = [0 \<mapsto> ''bounded_semaphore.00.lock'', 1 \<mapsto> ''bounded_semaphore.01.lock''],
      nfds = 2, held = [(0, True), (1, True)], trace = [],
      rng = (\<lambda>k. 0), rng_pos = 0, atexit = [],
      others = (\<lambda>k hs. hs), sleeps = 0, no_locks = []\<rparr>"

definition sem_outcome ::
  "((error + Lock option) \<times> BoundedSemaphore \<times> world) option
     \<Rightarrow> ((error + string option) \<times> bool \<times> event list \<times> nat) option" where
  "sem_outcome res =
     map_option (\<lambda>(r, s, w). (map_sum id (map_option filename) r, lock s = None, trace w, rng_pos w)) res"

text \<open>
  For \<^verbatim>\<open>open_atomic\<close>: an empty file system where \<^verbatim>\<open>tempfile\<close> will pick the name
  \<^verbatim>\<open>tmp1\<close>, no operation fails and written bytes wait in the buffer for the flush.
\<close>

definition fs0 :: filesys where
  "fs0 = \<lparr>fs_files = Map.empty, fs_dirs = [], tmp_names = [''tmp1''], faults = [], early = 0\<rparr>"

text \<open>
  For the scoped form: what the \<^verbatim>\<open>with\<close> statement gives once \<^verbatim>\<open>__exit__\<close> has run
  (the exception of \<^verbatim>\<open>__exit__\<close> if it raised one, the outcome of the body otherwise),
  a body that raises \<^verbatim>\<open>ValueError\<close> at once, and a \<^verbatim>\<open>TemporaryFileLock\<close> with the
  default arguments.
\<close>

definition exit_result ::
  "(error + 'b) \<Rightarrow> (error + unit) \<times> 's \<times> world \<Rightarrow> (error + 'b) \<times> 's \<times> world" where
  "exit_result res released =
     (case released of
        (Inl e, s3, w3) \<Rightarrow> (Inl e, s3, w3)
      | (Inr u, s3, w3) \<Rightarrow> (res, s3, w3))"

definition raising_body :: "'r \<Rightarrow> 's \<Rightarrow> world \<Rightarrow> (error + unit) \<times> 's \<times> world" where
  "raising_body r s w = (Inl ValueError, s, w)"

definition tmp_lock :: Lock where
  "tmp_lock = fst (TemporaryFileLock_init ''.lock'' (Some DEFAULT_TIMEOUT) DEFAULT_CHECK_INTERVAL
                     True LOCK_METHOD idle_world)"

section \<open>Properties of the engine\<close>

declare acquire_loop.simps [simp del] semaphore_loop.simps [simp del]

lemma holds_lock_filter [simp]: "\<not> holds_lock (w\<lparr>held := filter (\<lambda>p. fst p \<noteq> h) (held w)\<rparr>) h"
  by (auto simp: holds_lock_def)

lemma acquire_step_Break:
  "acquire_step l h te ci fwl exc w = Break h' w' \<Longrightarrow>
     h' = h \<and> files w' = files w \<and> fds w' = fds w \<and> nfds w' = nfds w \<and> holds_lock w' h
     \<and> trace w' = trace w @ [EvLock h True] \<and> rng_pos w' = rng_pos w \<and> atexit w' = atexit w"
  by (auto simp: acquire_step_def get_lock_def portalocker_lock_def current_time_def
        time_sleep_def try_close_def fh_close_def holds_lock_def Let_def
      split: if_splits prod.splits option.splits sum.splits error.splits)

lemma acquire_step_Again:
  "acquire_step l h te ci fwl exc w = Again exc' w' \<Longrightarrow>
     files w' = files w \<and> fds w' = fds w \<and> nfds w' = nfds w
     \<and> held w' = others w (sleeps w) (held w) \<and> no_locks w' = no_locks w
     \<and> trace w' = trace w @ [EvLock h False, EvSleep ci]
     \<and> exc' = ArgExc (LockException (ArgPrimitive h)) \<and> \<not> fwl \<and> 0 \<le> ci
     \<and> clock w' = clock w + \<bar>elapse w (reads w)\<bar> + ci \<and> reads w' = Suc (reads w)
     \<and> elapse w' = elapse w
     \<and> rng_pos w' = rng_pos w \<and> atexit w' = atexit w"
  by (auto simp: acquire_step_def get_lock_def portalocker_lock_def current_time_def
        time_sleep_def try_close_def fh_close_def holds_lock_def Let_def
      split: if_splits prod.splits option.splits sum.splits error.splits)

lemma acquire_step_Raise:
  "acquire_step l h te ci fwl exc w = Raise e w' \<Longrightarrow>
     files w' = files w \<and> nfds w' = nfds w \<and> rng_pos w' = rng_pos w \<and> atexit w' = atexit w
     \<and> (((e = ValueError \<or> e = OSError) \<and> trace w' = trace w @ [EvLock h False])
         \<or> (e = AlreadyLocked (ArgExc (LockException (ArgPrimitive h))) \<and> fwl
              \<and> fds w' h = None \<and> \<not> holds_lock w' h
              \<and> trace w' = trace w @ [EvLock h False, EvClose h])
         \<or> (e = LockException exc \<and> fds w' h = None \<and> \<not> holds_lock w' h
              \<and> trace w' = trace w @ [EvClose h]))"
  by (auto simp: acquire_step_def get_lock_def portalocker_lock_def current_time_def
        time_sleep_def try_close_def fh_close_def holds_lock_def Let_def
      split: if_splits prod.splits option.splits sum.splits error.splits)

lemma acquire_loop_success:
  "acquire_loop fuel l h te ci fwl exc w = Some (Inr h', w') \<Longrightarrow>
     h' = h \<and> files w' = files w \<and> fds w' = fds w \<and> nfds w' = nfds w \<and> holds_lock w' h
     \<and> rng_pos w' = rng_pos w \<and> atexit w' = atexit w
     \<and> (\<exists>evs. list_all (is_wait h) evs \<and> trace w' = trace w @ evs @ [EvLock h True])"
proof (induction fuel arbitrary: exc w)
  case 0
  then show ?case
    by (auto simp: acquire_loop.simps split: step.splits dest!: acquire_step_Break
          intro: exI [of _ "[]"])
next
  case (Suc n)
  show ?case
  proof (cases "acquire_step l h te ci fwl exc w")
    case (Break h1 w1)
    with Suc.prems show ?thesis
      by (auto simp: acquire_loop.simps dest!: acquire_step_Break intro: exI [of _ "[]"])
  next
    case (Raise e w1)
    with Suc.prems show ?thesis by (simp add: acquire_loop.simps)
  next
    case (Again exc1 w1)
    with Suc.prems have rec: "acquire_loop n l h te ci fwl exc1 w1 = Some (Inr h', w')"
      by (simp add: acquire_loop.simps)
    from Suc.IH [OF rec] obtain evs where
      ih: "h' = h" "files w' = files w1" "fds w' = fds w1" "nfds w' = nfds w1" "holds_lock w' h"
          "rng_pos w' = rng_pos w1" "atexit w' = atexit w1"
          "list_all (is_wait h) evs" "trace w' = trace w1 @ evs @ [EvLock h True]"
      by blast
    from acquire_step_Again [OF Again] have
      st: "files w1 = files w" "fds w1 = fds w" "nfds w1 = nfds w"
          "trace w1 = trace w @ [EvLock h False, EvSleep ci]"
          "rng_pos w1 = rng_pos w" "atexit w1 = atexit w"
      by simp_all
    have "list_all (is_wait h) ([EvLock h False, EvSleep ci] @ evs)"
      using ih(8) by simp
    moreover have "trace w' = trace w @ ([EvLock h False, EvSleep ci] @ evs) @ [EvLock h True]"
      using ih(9) st(4) by simp
    ultimately show ?thesis
      using ih st by metis
  next
    case Stuck
    with Suc.prems show ?thesis by (simp add: acquire_loop.simps)
  qed
qed

lemma acquire_step_Raise_summary:
  assumes st: "acquire_step l h te ci fwl exc w = Raise e w'"
  shows "files w' = files w \<and> nfds w' = nfds w \<and> rng_pos w' = rng_pos w \<and> atexit w' = atexit w
     \<and> (\<exists>evs. list_all (is_wait h) evs
            \<and> (trace w' = trace w @ evs \<or> trace w' = trace w @ evs @ [EvClose h]))
     \<and> (e = ValueError \<or> e = OSError
         \<or> (fds w' h = None \<and> \<not> holds_lock w' h
             \<and> ((e = AlreadyLocked (ArgExc (LockException (ArgPrimitive h))) \<and> fwl)
                 \<or> e = LockException exc
                 \<or> (e = LockException (ArgExc (LockException (ArgPrimitive h))) \<and> \<not> fwl))))"
proof -
  note r = acquire_step_Raise [OF st]
  from r consider
      (sleep) "e = ValueError \<or> e = OSError" "trace w' = trace w @ [EvLock h False]"
    | (fast) "e = AlreadyLocked (ArgExc (LockException (ArgPrimitive h)))" "fwl"
        "fds w' h = None" "\<not> holds_lock w' h" "trace w' = trace w @ [EvLock h False, EvClose h]"
    | (late) "e = LockException exc" "fds w' h = None" "\<not> holds_lock w' h"
        "trace w' = trace w @ [EvClose h]"
    by auto
  then have "(\<exists>evs. list_all (is_wait h) evs
            \<and> (trace w' = trace w @ evs \<or> trace w' = trace w @ evs @ [EvClose h]))
     \<and> (e = ValueError \<or> e = OSError
         \<or> (fds w' h = None \<and> \<not> holds_lock w' h
             \<and> ((e = AlreadyLocked (ArgExc (LockException (ArgPrimitive h))) \<and> fwl)
                 \<or> e = LockException exc
                 \<or> (e = LockException (ArgExc (LockException (ArgPrimitive h))) \<and> \<not> fwl))))"
  proof cases
    case sleep
    have "list_all (is_wait h) [EvLock h False]" by simp
    with sleep show ?thesis by blast
  next
    case fast
    have "list_all (is_wait h) [EvLock h False]" by simp
    moreover have "trace w' = trace w @ [EvLock h False] @ [EvClose h]" using fast by simp
    ultimately show ?thesis using fast by blast
  next
    case late
    have "list_all (is_wait h) []" by simp
    moreover have "trace w' = trace w @ [] @ [EvClose h]" using late by simp
    ultimately show ?thesis using late by blast
  qed
  with r show ?thesis by simp
qed

lemma acquire_loop_failure:
  "acquire_loop fuel l h te ci fwl exc w = Some (Inl e, w') \<Longrightarrow>
     files w' = files w \<and> nfds w' = nfds w \<and> rng_pos w' = rng_pos w \<and> atexit w' = atexit w
     \<and> (\<exists>evs. list_all (is_wait h) evs
            \<and> (trace w' = trace w @ evs \<or> trace w' = trace w @ evs @ [EvClose h]))
     \<and> (e = ValueError \<or> e = OSError
         \<or> (fds w' h = None \<and> \<not> holds_lock w' h
             \<and> ((e = AlreadyLocked (ArgExc (LockException (ArgPrimitive h))) \<and> fwl)
                 \<or> e = LockException exc
                 \<or> (e = LockException (ArgExc (LockException (ArgPrimitive h))) \<and> \<not> fwl))))"
proof (induction fuel arbitrary: exc w)
  case 0
  then have st: "acquire_step l h te ci fwl exc w = Raise e w'"
    by (auto simp: acquire_loop.simps split: step.splits)
  from acquire_step_Raise_summary [OF st] show ?case .
next
  case (Suc n)
  show ?case
  proof (cases "acquire_step l h te ci fwl exc w")
    case (Break h1 w1)
    with Suc.prems show ?thesis by (simp add: acquire_loop.simps)
  next
    case (Raise e1 w1)
    with Suc.prems have st: "acquire_step l h te ci fwl exc w = Raise e w'"
      by (simp add: acquire_loop.simps)
    from acquire_step_Raise_summary [OF st] show ?thesis .
  next
    case (Again exc1 w1)
    with Suc.prems have rec: "acquire_loop n l h te ci fwl exc1 w1 = Some (Inl e, w')"
      by (simp add: acquire_loop.simps)
    from acquire_step_Again [OF Again] have
      st: "files w1 = files w" "fds w1 = fds w" "nfds w1 = nfds w"
          "trace w1 = trace w @ [EvLock h False, EvSleep ci]"
          "rng_pos w1 = rng_pos w" "atexit w1 = atexit w"
          "exc1 = ArgExc (LockException (ArgPrimitive h))" "\<not> fwl"
      by simp_all
    from Suc.IH [OF rec] obtain evs where
      ih: "files w' = files w1" "nfds w' = nfds w1" "rng_pos w' = rng_pos w1" "atexit w' = atexit w1"
          "list_all (is_wait h) evs"
          "trace w' = trace w1 @ evs \<or> trace w' = trace w1 @ evs @ [EvClose h]"
          "e = ValueError \<or> e = OSError
             \<or> (fds w' h = None \<and> \<not> holds_lock w' h
                 \<and> ((e = AlreadyLocked (ArgExc (LockException (ArgPrimitive h))) \<and> fwl)
                    \<or> e = LockException exc1
                    \<or> (e = LockException (ArgExc (LockException (ArgPrimitive h))) \<and> \<not> fwl)))"
      by blast
    have w: "list_all (is_wait h) ([EvLock h False, EvSleep ci] @ evs)"
      using ih(5) by simp
    have t: "trace w' = trace w @ ([EvLock h False, EvSleep ci] @ evs)
             \<or> trace w' = trace w @ ([EvLock h False, EvSleep ci] @ evs) @ [EvClose h]"
      using ih(6) st(4) by auto
    have ex: "\<exists>evs. list_all (is_wait h) evs
            \<and> (trace w' = trace w @ evs \<or> trace w' = trace w @ evs @ [EvClose h])"
      using w t by blast
    show ?thesis
      using ih(1-4,7) st ex by auto
  next
    case Stuck
    with Suc.prems show ?thesis by (simp add: acquire_loop.simps)
  qed
qed

lemma py_open_ok:
  "py_open f m w = (Inr h, w') \<Longrightarrow>
     h = nfds w \<and> fds w' = (fds w)(h \<mapsto> f) \<and> nfds w' = Suc (nfds w)
     \<and> trace w' = trace w @ [EvOpen h f] \<and> held w' = held w
     \<and> files w' = (files w)(f \<mapsto> opened_content f m w)
     \<and> rng_pos w' = rng_pos w \<and> atexit w' = atexit w \<and> clock w' = clock w
     \<and> reads w' = reads w \<and> elapse w' = elapse w"
  by (auto simp: py_open_def opened_content_def Let_def split: if_splits)

lemma py_open_fail: "py_open f m w = (Inl e, w') \<Longrightarrow> w' = w \<and> (e = ValueError \<or> e = OSError)"
  by (auto simp: py_open_def Let_def split: if_splits)

lemma current_time_facts:
  "current_time w = (t, w') \<Longrightarrow>
     t = clock w + \<bar>elapse w (reads w)\<bar> \<and> clock w' = t \<and> reads w' = Suc (reads w)
     \<and> elapse w' = elapse w
     \<and> files w' = files w \<and> fds w' = fds w \<and> nfds w' = nfds w \<and> held w' = held w
     \<and> trace w' = trace w \<and> rng_pos w' = rng_pos w \<and> atexit w' = atexit w"
  by (auto simp: current_time_def Let_def)

lemma Lock_acquire_held:
  "fh l = Some h \<Longrightarrow> Lock_acquire fuel l t c f w = Some (Inr h, l, w)"
  by (simp add: Lock_acquire_def Let_def)

lemma prepare_fh_open:
  "fds w h = Some p \<Longrightarrow>
     prepare_fh l h w =
       (Inr h, if do_truncate l
               then w\<lparr>files := (files w)(p \<mapsto> []), trace := trace w @ [EvTruncate h]\<rparr>
               else w)"
  by (simp add: prepare_fh_def fh_truncate_def)

lemma Lock_acquire_unfold:
  assumes "fh l = None"
  shows "Lock_acquire fuel l t c f w =
     (case py_open (filename l) (mode l) w of
        (Inl e, w0) \<Rightarrow> Some (Inl e, l, w0)
      | (Inr h, w0) \<Rightarrow>
          (case acquire_loop fuel l h
                  (fst (current_time w0)
                     + (case (case t of None \<Rightarrow> timeout l | Some x \<Rightarrow> Some x) of
                          None \<Rightarrow> 0 | Some x \<Rightarrow> x))
                  (resolve c (check_interval l)) (resolve f (fail_when_locked l)) ArgNone
                  (snd (current_time w0)) of
             None \<Rightarrow> None
           | Some (Inl e, w2) \<Rightarrow> Some (Inl e, l, w2)
           | Some (Inr h', w2) \<Rightarrow>
               (case prepare_fh l h' w2 of
                  (Inl e, w3) \<Rightarrow> Some (Inl e, l, w3)
                | (Inr h'', w3) \<Rightarrow> Some (Inr h'', l\<lparr>fh := Some h''\<rparr>, w3))))"
  using assms
  by (simp add: Lock_acquire_def Let_def get_fh_def split: prod.splits sum.splits option.splits)

lemma Lock_acquire_success:
  assumes free: "fh l = None"
    and acq: "Lock_acquire fuel l t c f w = Some (Inr h, l', w')"
  shows "l' = l\<lparr>fh := Some h\<rparr> \<and> h = nfds w \<and> holds_lock w' h
     \<and> fds w' = (fds w)(h \<mapsto> filename l) \<and> nfds w' = Suc (nfds w)
     \<and> rng_pos w' = rng_pos w \<and> atexit w' = atexit w
     \<and> files w' = (files w)(filename l \<mapsto>
          (if do_truncate l then [] else opened_content (filename l) (mode l) w))
     \<and> (\<exists>evs. list_all (is_wait h) evs
            \<and> trace w' = trace w @ [EvOpen h (filename l)] @ evs @ [EvLock h True]
                  @ (if do_truncate l then [EvTruncate h] else []))"
proof -
  obtain r0 w0 where o: "py_open (filename l) (mode l) w = (r0, w0)"
    by (cases "py_open (filename l) (mode l) w")
  from acq o free obtain h0 where r0: "r0 = Inr h0"
    by (cases r0) (simp_all add: Lock_acquire_unfold)
  note op = py_open_ok [OF o [unfolded r0]]
  obtain t0 w1 where ct: "current_time w0 = (t0, w1)"
    by (cases "current_time w0")
  note c1 = current_time_facts [OF ct]
  let ?te = "t0 + (case (case t of None \<Rightarrow> timeout l | Some x \<Rightarrow> Some x) of None \<Rightarrow> 0 | Some x \<Rightarrow> x)"
  from acq o r0 free ct obtain h1 w2 where
    lp: "acquire_loop fuel l h0 ?te (resolve c (check_interval l))
           (resolve f (fail_when_locked l)) ArgNone w1 = Some (Inr h1, w2)"
    by (auto simp: Lock_acquire_unfold split: option.splits sum.splits prod.splits)
  from acquire_loop_success [OF lp] obtain evs where
    ls: "h1 = h0" "files w2 = files w1" "fds w2 = fds w1" "nfds w2 = nfds w1" "holds_lock w2 h0"
        "rng_pos w2 = rng_pos w1" "atexit w2 = atexit w1"
        "list_all (is_wait h0) evs" "trace w2 = trace w1 @ evs @ [EvLock h0 True]"
    by blast
  have fd: "fds w2 h0 = Some (filename l)"
    using ls(3) c1 op by simp
  note pf = prepare_fh_open [OF fd, of l]
  from acq o r0 free ct lp ls(1) pf have
    res: "h = h0" "l' = l\<lparr>fh := Some h0\<rparr>"
         "w' = (if do_truncate l
               then w2\<lparr>files := (files w2)(filename l \<mapsto> []), trace := trace w2 @ [EvTruncate h0]\<rparr>
               else w2)"
    by (auto simp: Lock_acquire_unfold)
  have tr: "trace w' = trace w @ [EvOpen h (filename l)] @ evs @ [EvLock h True]
                  @ (if do_truncate l then [EvTruncate h] else [])"
    using res ls(9) c1 op by simp
  have "list_all (is_wait h) evs" using ls(8) res(1) by simp
  with tr have ex: "\<exists>evs. list_all (is_wait h) evs
            \<and> trace w' = trace w @ [EvOpen h (filename l)] @ evs @ [EvLock h True]
                  @ (if do_truncate l then [EvTruncate h] else [])"
    by blast
  have hl: "holds_lock w' h" using res ls(5) by (simp add: holds_lock_def)
  have fl: "files w' = (files w)(filename l \<mapsto>
          (if do_truncate l then [] else opened_content (filename l) (mode l) w))"
    using res ls(2) c1 op by simp
  show ?thesis
    using res(1,2) op c1 ls(3,4,6,7) hl fl ex res(3) by simp
qed

lemma Lock_acquire_failure:
  assumes free: "fh l = None"
    and acq: "Lock_acquire fuel l t c f w = Some (Inl e, l', w')"
  shows "l' = l \<and> rng_pos w' = rng_pos w \<and> atexit w' = atexit w
     \<and> ((w' = w \<and> (e = ValueError \<or> e = OSError))
         \<or> (files w' = (files w)(filename l \<mapsto> opened_content (filename l) (mode l) w)
             \<and> nfds w' = Suc (nfds w)
             \<and> (\<exists>evs. list_all (is_wait (nfds w)) evs
                   \<and> (trace w' = trace w @ [EvOpen (nfds w) (filename l)] @ evs
                       \<or> trace w' = trace w @ [EvOpen (nfds w) (filename l)] @ evs @ [EvClose (nfds w)]))
             \<and> (e = ValueError \<or> e = OSError
                 \<or> (fds w' (nfds w) = None \<and> \<not> holds_lock w' (nfds w)
                     \<and> ((e = AlreadyLocked (ArgExc (LockException (ArgPrimitive (nfds w))))
                            \<and> resolve f (fail_when_locked l))
                         \<or> e = LockException ArgNone
                         \<or> (e = LockException (ArgExc (LockException (ArgPrimitive (nfds w))))
                            \<and> \<not> resolve f (fail_when_locked l)))))))"
proof -
  obtain r0 w0 where o: "py_open (filename l) (mode l) w = (r0, w0)"
    by (cases "py_open (filename l) (mode l) w")
  show ?thesis
  proof (cases r0)
    case (Inl e0)
    with acq o free have "e = e0" "l' = l" "w' = w0"
      by (simp_all add: Lock_acquire_unfold)
    with py_open_fail [OF o [unfolded Inl]] show ?thesis by auto
  next
    case (Inr h0)
    note op = py_open_ok [OF o [unfolded Inr]]
    obtain t0 w1 where ct: "current_time w0 = (t0, w1)"
      by (cases "current_time w0")
    note c1 = current_time_facts [OF ct]
    let ?te = "t0 + (case (case t of None \<Rightarrow> timeout l | Some x \<Rightarrow> Some x) of None \<Rightarrow> 0 | Some x \<Rightarrow> x)"
    let ?lp = "acquire_loop fuel l h0 ?te (resolve c (check_interval l))
           (resolve f (fail_when_locked l)) ArgNone w1"
    from acq o Inr free ct obtain r2 w2 where lp: "?lp = Some (r2, w2)"
      by (auto simp: Lock_acquire_unfold split: option.splits)
    show ?thesis
    proof (cases r2)
      case (Inr h1)
      from acquire_loop_success [OF lp [unfolded Inr]] have "fds w2 h0 = Some (filename l)" "h1 = h0"
        using c1 op by simp_all
      from prepare_fh_open [OF this(1), of l] acq o \<open>r0 = Inr h0\<close> free ct lp Inr \<open>h1 = h0\<close>
      show ?thesis by (simp add: Lock_acquire_unfold)
    next
      case (Inl e2)
      with acq o \<open>r0 = Inr h0\<close> free ct lp have eq: "e = e2" "l' = l" "w' = w2"
        by (simp_all add: Lock_acquire_unfold)
      from acquire_loop_failure [OF lp [unfolded Inl]] obtain evs where
        lf: "files w2 = files w1" "nfds w2 = nfds w1" "rng_pos w2 = rng_pos w1" "atexit w2 = atexit w1"
            "list_all (is_wait h0) evs"
            "trace w2 = trace w1 @ evs \<or> trace w2 = trace w1 @ evs @ [EvClose h0]"
            "e2 = ValueError \<or> e2 = OSError
              \<or> (fds w2 h0 = None \<and> \<not> holds_lock w2 h0
                  \<and> ((e2 = AlreadyLocked (ArgExc (LockException (ArgPrimitive h0)))
                         \<and> resolve f (fail_when_locked l))
                     \<or> e2 = LockException ArgNone
                     \<or> (e2 = LockException (ArgExc (LockException (ArgPrimitive h0)))
                         \<and> \<not> resolve f (fail_when_locked l))))"
        by blast
      have h0: "h0 = nfds w" using op by simp
      have "trace w' = trace w @ [EvOpen (nfds w) (filename l)] @ evs
              \<or> trace w' = trace w @ [EvOpen (nfds w) (filename l)] @ evs @ [EvClose (nfds w)]"
        using lf(6) eq c1 op by auto
      with lf(5) h0 have ex: "\<exists>evs. list_all (is_wait (nfds w)) evs
                   \<and> (trace w' = trace w @ [EvOpen (nfds w) (filename l)] @ evs
                       \<or> trace w' = trace w @ [EvOpen (nfds w) (filename l)] @ evs @ [EvClose (nfds w)])"
        by blast
      have fl: "files w' = (files w)(filename l \<mapsto> opened_content (filename l) (mode l) w)"
        using lf(1) eq c1 op by simp
      show ?thesis
        using eq lf(2,3,4,7) c1 op fl ex h0 by auto
    qed
  qed
qed

lemmas engine_defs =
  Lock_acquire_def Lock_init_def acquire_loop.simps acquire_step_def get_fh_def get_lock_def
  prepare_fh_def try_close_def py_open_def valid_mode_def fh_close_def fh_truncate_def
  portalocker_lock_def portalocker_unlock_def contended_def current_time_def time_sleep_def
  resolve_def str_replace_def LOCK_METHOD_def DEFAULT_TIMEOUT_def DEFAULT_CHECK_INTERVAL_def
  Let_def outcome_def idle_world_def busy_world_def

subsection \<open>The retry loop returns\<close>

text \<open>
  With a non-blocking lock mode and a positive check interval every pass that has to wait
  moves the clock on by the interval at least, so the loop ends: some amount of fuel
  makes \<open>Lock_acquire\<close> return.
\<close>

lemma acquire_step_not_stuck:
  "non_blocking (flags l) \<Longrightarrow> acquire_step l h te ci fwl exc w \<noteq> Stuck"
  by (auto simp: acquire_step_def get_lock_def portalocker_lock_def current_time_def Let_def
        time_sleep_def split: if_splits prod.splits option.splits sum.splits error.splits)

lemma acquire_step_late:
  "te \<le> clock w \<Longrightarrow>
     acquire_step l h te ci fwl exc w
       = Raise (LockException exc) (try_close h (snd (current_time w)))"
proof -
  assume "te \<le> clock w"
  then have "\<not> te > fst (current_time w)"
    by (simp add: current_time_def Let_def)
  then show ?thesis
    by (simp add: acquire_step_def case_prod_beta)
qed

lemma acquire_loop_returns:
  assumes nb: "non_blocking (flags l)" and ci: "0 < ci"
  shows "te - clock w \<le> of_nat fuel * ci \<Longrightarrow> acquire_loop fuel l h te ci fwl exc w \<noteq> None"
proof (induction fuel arbitrary: exc w)
  case 0
  then have "te \<le> clock w" by simp
  then show ?case
    by (simp add: acquire_loop.simps acquire_step_late)
next
  case (Suc n)
  show ?case
  proof (cases "acquire_step l h te ci fwl exc w")
    case (Break h1 w1)
    then show ?thesis by (simp add: acquire_loop.simps)
  next
    case (Raise e w1)
    then show ?thesis by (simp add: acquire_loop.simps)
  next
    case (Again exc1 w1)
    from acquire_step_Again [OF Again] have "clock w1 = clock w + \<bar>elapse w (reads w)\<bar> + ci"
      by simp
    then have "clock w + ci \<le> clock w1" by simp
    moreover from Suc.prems have "te - clock w \<le> of_nat n * ci + ci"
      by (simp add: algebra_simps)
    ultimately have "te - clock w1 \<le> of_nat n * ci" by simp
    from Suc.IH [OF this] Again show ?thesis
      by (simp add: acquire_loop.simps)
  next
    case Stuck
    with acquire_step_not_stuck [OF nb] show ?thesis by simp
  qed
qed

lemma Lock_acquire_returns:
  assumes nb: "non_blocking (flags l)" and ci: "0 < resolve c (check_interval l)"
  shows "\<exists>fuel. Lock_acquire fuel l t c f w \<noteq> None"
proof (cases "fh l")
  case (Some h)
  then show ?thesis by (simp add: Lock_acquire_held)
next
  case None
  obtain r0 w0 where o: "py_open (filename l) (mode l) w = (r0, w0)"
    by (cases "py_open (filename l) (mode l) w")
  show ?thesis
  proof (cases r0)
    case (Inl e)
    with o None show ?thesis by (simp add: Lock_acquire_unfold)
  next
    case (Inr h)
    let ?te = "fst (current_time w0)
                 + (case (case t of None \<Rightarrow> timeout l | Some x \<Rightarrow> Some x) of
                      None \<Rightarrow> 0 | Some x \<Rightarrow> x)"
    let ?w1 = "snd (current_time w0)"
    let ?ci = "resolve c (check_interval l)"
    obtain n :: nat where n: "(?te - clock ?w1) / ?ci \<le> of_nat n"
      using real_arch_simple by blast
    with ci have "?te - clock ?w1 \<le> of_nat n * ?ci"
      by (simp add: pos_divide_le_eq)
    from acquire_loop_returns [OF nb ci this]
    have "acquire_loop n l h ?te ?ci (resolve f (fail_when_locked l)) ArgNone ?w1 \<noteq> None" .
    with o Inr None have "Lock_acquire n l t c f w \<noteq> None"
      by (auto simp: Lock_acquire_unfold split: sum.splits prod.splits)
    then show ?thesis ..
  qed
qed

subsection \<open>A deadline that the first check finds ahead\<close>

text \<open>
  When less than the timeout goes by between the reading that sets the deadline and the
  first check of the loop, exactly one attempt is made on a free lock, which succeeds,
  and a contended lock with \<^verbatim>\<open>fail_when_locked\<close> raises \<^verbatim>\<open>AlreadyLocked\<close> with the
  contention error at the first attempt.
\<close>

lemma contended_current_time [simp]:
  "contended h ex (snd (current_time w)) = contended h ex w"
  by (simp add: contended_def current_time_def Let_def)

lemma Lock_acquire_in_time:
  assumes free: "fh l = None"
    and opn: "py_open (filename l) (mode l) w = (Inr h, w0)"
    and intime: "\<bar>elapse w (Suc (reads w))\<bar>
                  < (case (case t of None \<Rightarrow> timeout l | Some x \<Rightarrow> Some x) of
                       None \<Rightarrow> 0 | Some x \<Rightarrow> x)"
    and nb: "non_blocking (flags l)"
    and lockable: "filename l \<notin> set (no_locks w)"
  shows "if contended h (exclusive (flags l)) w0
         then (if resolve f (fail_when_locked l)
               then outcome (Lock_acquire fuel l t c f w)
                      = Some (Inl (AlreadyLocked (ArgExc (LockException (ArgPrimitive h)))), None,
                              trace w @ [EvOpen h (filename l), EvLock h False, EvClose h])
               else True)
         else outcome (Lock_acquire fuel l t c f w)
                = Some (Inr h, Some h,
                        trace w @ [EvOpen h (filename l), EvLock h True]
                          @ (if do_truncate l then [EvTruncate h] else []))"
proof -
  note op = py_open_ok [OF opn]
  let ?tmo = "case (case t of None \<Rightarrow> timeout l | Some x \<Rightarrow> Some x) of None \<Rightarrow> 0 | Some x \<Rightarrow> x"
  let ?w1 = "snd (current_time w0)"
  let ?w2 = "snd (current_time ?w1)"
  have gt: "fst (current_time w0) + ?tmo > fst (current_time ?w1)"
    using intime op by (simp add: current_time_def Let_def)
  have c2: "contended h (exclusive (flags l)) ?w2 = contended h (exclusive (flags l)) w0"
    by simp
  have fd: "fds ?w2 h = Some (filename l)" "trace ?w2 = trace w @ [EvOpen h (filename l)]"
    using op by (simp_all add: current_time_def Let_def)
  have nl: "filename l \<notin> set (no_locks ?w2)"
    using lockable opn by (auto simp: py_open_def current_time_def Let_def split: if_splits)
  show ?thesis
  proof (cases "contended h (exclusive (flags l)) w0")
    case True
    with c2 nb fd nl have gl: "get_lock l h ?w2
        = Some (Inl (LockException (ArgPrimitive h)), ?w2\<lparr>trace := trace ?w2 @ [EvLock h False]\<rparr>)"
      by (simp add: get_lock_def portalocker_lock_def)
    show ?thesis
      using True free opn gt gl fd
      by (simp add: outcome_def Lock_acquire_unfold acquire_loop.simps acquire_step_def
            case_prod_beta try_close_def fh_close_def)
  next
    case False
    with c2 fd nl have gl: "get_lock l h ?w2
        = Some (Inr h, ?w2\<lparr>held := (h, exclusive (flags l)) # filter (\<lambda>p. fst p \<noteq> h) (held ?w2),
                          trace := trace ?w2 @ [EvLock h True]\<rparr>)"
      by (simp add: get_lock_def portalocker_lock_def)
    show ?thesis
      using False free opn gt gl fd
      by (simp add: outcome_def Lock_acquire_unfold acquire_loop.simps acquire_step_def
            case_prod_beta prepare_fh_def fh_truncate_def)
  qed
qed

section \<open>The claims\<close>

text \<open>
  C7. A reentrant lock at depth 0 refuses \<^verbatim>\<open>release()\<close> with the exception
  "Cannot release more times than acquired"; the call is made once, without any retry,
  and leaves the depth, the handle and the world as they were.
\<close>

theorem RLock_release_unacquired:
  assumes "acquire_count l = 0"
  shows "RLock_release l w =
           (Inl (LockException (ArgText ''Cannot release more times than acquired'')), l, w)"
  using assms by (simp add: RLock_release_def)

theorem RLock_release_unacquired_witness:
  "acquire_count rlock0 = 0
   \<and> RLock_release rlock0 idle_world =
       (Inl (LockException (ArgText ''Cannot release more times than acquired'')), rlock0, idle_world)"
proof -
  have h: "acquire_count rlock0 = 0"
    by (simp add: rlock0_def RLock_init_def Let_def)
  from RLock_release_unacquired [OF h, of idle_world] h show ?thesis by simp
qed

subsection \<open>Acquire, then release\<close>

lemma Lock_release_free: "fh l = None \<Longrightarrow> Lock_release l w = (Inr (), l, w)"
  by (simp add: Lock_release_def)

lemma Lock_release_held:
  "fh l = Some h \<Longrightarrow>
     Lock_release l w = (Inr (), l\<lparr>fh := None\<rparr>, fh_close h (portalocker_unlock h w))"
  by (simp add: Lock_release_def)

lemma closed_after_release:
  "fds (fh_close h (portalocker_unlock h w)) h = None
   \<and> \<not> holds_lock (fh_close h (portalocker_unlock h w)) h
   \<and> files (fh_close h (portalocker_unlock h w)) = files w
   \<and> trace (fh_close h (portalocker_unlock h w)) = trace w @ [EvUnlock h, EvClose h]"
  by (auto simp: fh_close_def portalocker_unlock_def holds_lock_def)

lemma Lock_acquire_fh:
  assumes "Lock_acquire fuel l t c f w = Some (Inr h, l1, w1)"
  shows "fh l1 = Some h"
proof (cases "fh l")
  case None
  from Lock_acquire_success [OF None assms] show ?thesis by simp
next
  case (Some h0)
  from Lock_acquire_held [OF Some, of fuel t c f w] assms Some show ?thesis by simp
qed

text \<open>
  C9. After an \<^verbatim>\<open>acquire()\<close> that returned a handle, \<^verbatim>\<open>release()\<close> leaves the lock
  without a handle, the handle closed and no advisory lock held by it, having called the
  unlock primitive and the close once each; a further \<^verbatim>\<open>release()\<close>, and any
  \<^verbatim>\<open>release()\<close> of a lock that holds nothing, changes neither the lock nor the world.
\<close>

theorem Lock_acquire_then_release:
  "(Lock_acquire fuel l t c f w = Some (Inr h, l1, w1) \<longrightarrow>
      (case Lock_release l1 w1 of
         (r, l2, w2) \<Rightarrow>
           r = Inr () \<and> fh l2 = None \<and> fds w2 h = None \<and> \<not> holds_lock w2 h
           \<and> trace w2 = trace w1 @ [EvUnlock h, EvClose h]
           \<and> Lock_release l2 w2 = (Inr (), l2, w2)))
   \<and> (fh l = None \<longrightarrow> Lock_release l w = (Inr (), l, w))"
proof (intro conjI impI)
  assume acq: "Lock_acquire fuel l t c f w = Some (Inr h, l1, w1)"
  note held = Lock_acquire_fh [OF acq]
  show "case Lock_release l1 w1 of
         (r, l2, w2) \<Rightarrow>
           r = Inr () \<and> fh l2 = None \<and> fds w2 h = None \<and> \<not> holds_lock w2 h
           \<and> trace w2 = trace w1 @ [EvUnlock h, EvClose h]
           \<and> Lock_release l2 w2 = (Inr (), l2, w2)"
    using closed_after_release [of h w1]
    by (simp add: Lock_release_held [OF held] Lock_release_free)
next
  assume "fh l = None"
  then show "Lock_release l w = (Inr (), l, w)" by (rule Lock_release_free)
qed

lemma lock5_acquire:
  "Lock_acquire fuel lock5 None None None idle_world = Some (Inr 0, lock5\<lparr>fh := Some 0\<rparr>, locked_world)"
  by (simp add: engine_defs lock5_def locked_world_def)

theorem Lock_acquire_then_release_witness:
  "Lock_acquire 0 lock5 None None None idle_world = Some (Inr 0, lock5\<lparr>fh := Some 0\<rparr>, locked_world)
   \<and> fh lock5 = None
   \<and> (case Lock_release (lock5\<lparr>fh := Some 0\<rparr>) locked_world of
         (r, l2, w2) \<Rightarrow>
           r = Inr () \<and> fh l2 = None \<and> fds w2 0 = None \<and> \<not> holds_lock w2 0
           \<and> trace w2 = trace locked_world @ [EvUnlock 0, EvClose 0]
           \<and> Lock_release l2 w2 = (Inr (), l2, w2))
   \<and> Lock_release lock5 idle_world = (Inr (), lock5, idle_world)"
proof -
  have a: "Lock_acquire 0 lock5 None None None idle_world
             = Some (Inr 0, lock5\<lparr>fh := Some 0\<rparr>, locked_world)"
    by (rule lock5_acquire)
  have b: "fh lock5 = None" by (simp add: lock5_def Lock_init_def)
  from Lock_acquire_then_release [of 0 lock5 None None None idle_world 0 "lock5\<lparr>fh := Some 0\<rparr>" locked_world]
    a b show ?thesis by simp
qed

subsection \<open>Write mode\<close>

lemma Lock_init_write_mode:
  "CHR ''w'' \<in> set m \<Longrightarrow>
     Lock_init fname m tmo ci fwl fl =
       \<lparr>fh = None, filename = fname, mode = str_replace CHR ''w'' CHR ''a'' m,
        do_truncate = True, timeout = tmo, check_interval = ci,
        fail_when_locked = fwl, flags = fl\<rparr>"
  by (simp add: Lock_init_def)

lemma str_replace_removes: "a \<noteq> b \<Longrightarrow> a \<notin> set (str_replace a b s)"
  by (auto simp: str_replace_def)

lemma waiting_no_truncate: "list_all (is_wait h) evs \<Longrightarrow> EvTruncate h' \<notin> set evs"
  by (induction evs) auto

lemma opened_content_keeps:
  "CHR ''w'' \<notin> set m \<Longrightarrow> files w p = Some d \<Longrightarrow>
     ((files w)(fname \<mapsto> opened_content fname m w)) p = Some d"
  by (auto simp: opened_content_def)

text \<open>
  C4. A \<^verbatim>\<open>Lock\<close> constructed with a mode that contains \<^verbatim>\<open>w\<close> keeps the mode with
  every \<^verbatim>\<open>w\<close> replaced by \<^verbatim>\<open>a\<close> and sets the truncate flag. Its \<^verbatim>\<open>acquire\<close>
  never empties a file before it holds the lock: when it fails, every file that existed
  still has its content and no truncation was made; when it succeeds, the handle was
  opened, then waited on (failed attempts and sleeps only, during which another holder
  may release the lock), then locked, and only then truncated, and no other file has
  changed. Step by step: opening in the rewritten mode keeps the content of every file,
  and the retry loop, however it ends, leaves every file as it found it.
\<close>

theorem write_mode_truncates_after_lock:
  assumes wm: "CHR ''w'' \<in> set m"
    and l: "l = Lock_init fname m tmo ci fwl fl"
  shows "do_truncate l \<and> mode l = str_replace CHR ''w'' CHR ''a'' m \<and> CHR ''w'' \<notin> set (mode l)
     \<and> (Lock_acquire fuel l t c f w = Some (Inl e, l', w') \<longrightarrow>
          (\<forall>p d. files w p = Some d \<longrightarrow> files w' p = Some d)
          \<and> (\<exists>evs. trace w' = trace w @ evs \<and> (\<forall>h. EvTruncate h \<notin> set evs)))
     \<and> (Lock_acquire fuel l t c f w = Some (Inr h, l', w') \<longrightarrow>
          holds_lock w' h \<and> fds w' h = Some fname \<and> files w' fname = Some []
          \<and> (\<forall>p. p \<noteq> fname \<longrightarrow> files w' p = files w p)
          \<and> (\<exists>evs. list_all (is_wait h) evs
                \<and> trace w' = trace w @ [EvOpen h fname] @ evs @ [EvLock h True, EvTruncate h]))
     \<and> (py_open (filename l) (mode l) w = (Inr h0, w0) \<longrightarrow>
          (\<forall>p d. files w p = Some d \<longrightarrow> files w0 p = Some d))
     \<and> (acquire_loop n l h1 te ci1 fwl1 exc w1 = Some (r, w2) \<longrightarrow> files w2 = files w1)"
proof -
  note li = Lock_init_write_mode [OF wm, of fname tmo ci fwl fl]
  have f: "fh l = None" "filename l = fname" "do_truncate l"
    "mode l = str_replace CHR ''w'' CHR ''a'' m"
    using l li by simp_all
  have nw: "CHR ''w'' \<notin> set (mode l)"
    using f(4) str_replace_removes [of "CHR ''w''" "CHR ''a''" m] by simp
  have fail: "(\<forall>p d. files w p = Some d \<longrightarrow> files w' p = Some d)
          \<and> (\<exists>evs. trace w' = trace w @ evs \<and> (\<forall>h. EvTruncate h \<notin> set evs))"
    if acq: "Lock_acquire fuel l t c f w = Some (Inl e, l', w')"
  proof -
    from Lock_acquire_failure [OF f(1) acq] consider
        (unopened) "w' = w"
      | (opened) evs where
          "files w' = (files w)(filename l \<mapsto> opened_content (filename l) (mode l) w)"
          "list_all (is_wait (nfds w)) evs"
          "trace w' = trace w @ [EvOpen (nfds w) (filename l)] @ evs
             \<or> trace w' = trace w @ [EvOpen (nfds w) (filename l)] @ evs @ [EvClose (nfds w)]"
      by auto
    then show ?thesis
    proof cases
      case unopened
      have "trace w' = trace w @ [] \<and> (\<forall>h. EvTruncate h \<notin> set [])"
        using unopened by simp
      then have "\<exists>evs. trace w' = trace w @ evs \<and> (\<forall>h. EvTruncate h \<notin> set evs)" ..
      with unopened show ?thesis by simp
    next
      case opened
      have keep: "\<forall>p d. files w p = Some d \<longrightarrow> files w' p = Some d"
        using opened(1) opened_content_keeps [OF nw] by simp
      note nt = waiting_no_truncate [OF opened(2)]
      from opened(3) have "\<exists>evs. trace w' = trace w @ evs \<and> (\<forall>h. EvTruncate h \<notin> set evs)"
      proof
        assume "trace w' = trace w @ [EvOpen (nfds w) (filename l)] @ evs"
        moreover have "\<forall>h. EvTruncate h \<notin> set ([EvOpen (nfds w) (filename l)] @ evs)"
          using nt by simp
        ultimately show ?thesis by blast
      next
        assume "trace w' = trace w @ [EvOpen (nfds w) (filename l)] @ evs @ [EvClose (nfds w)]"
        moreover have "\<forall>h. EvTruncate h \<notin> set ([EvOpen (nfds w) (filename l)] @ evs @ [EvClose (nfds w)])"
          using nt by simp
        ultimately show ?thesis by blast
      qed
      with keep show ?thesis by simp
    qed
  qed
  have ok: "holds_lock w' h \<and> fds w' h = Some fname \<and> files w' fname = Some []
          \<and> (\<forall>p. p \<noteq> fname \<longrightarrow> files w' p = files w p)
          \<and> (\<exists>evs. list_all (is_wait h) evs
                \<and> trace w' = trace w @ [EvOpen h fname] @ evs @ [EvLock h True, EvTruncate h])"
    if acq: "Lock_acquire fuel l t c f w = Some (Inr h, l', w')"
    using Lock_acquire_success [OF f(1) acq] f(2,3) by auto
  have opn: "\<forall>p d. files w p = Some d \<longrightarrow> files w0 p = Some d"
    if o: "py_open (filename l) (mode l) w = (Inr h0, w0)"
    using py_open_ok [OF o] opened_content_keeps [OF nw] by simp
  have lp: "files w2 = files w1"
    if a: "acquire_loop n l h1 te ci1 fwl1 exc w1 = Some (r, w2)"
  proof (cases r)
    case (Inl e1)
    from acquire_loop_failure [OF a [unfolded Inl]] show ?thesis by simp
  next
    case (Inr h2)
    from acquire_loop_success [OF a [unfolded Inr]] show ?thesis by simp
  qed
  show ?thesis
    using f(3,4) nw fail ok opn lp by blast
qed

lemma handover_acquire:
  "\<exists>l1 w1. Lock_acquire 1 lock5 None None None handover_world = Some (Inr 1, l1, w1)
     \<and> trace w1 = [EvOpen 1 ''f'', EvLock 1 False, EvSleep (1 / 4), EvLock 1 True, EvTruncate 1]"
proof -
  have one: "(1::nat) = Suc 0" by simp
  show ?thesis
    unfolding one by (simp add: engine_defs lock5_def handover_world_def)
qed

lemma busy_timeout:
  "\<exists>l1 w1. Lock_acquire 1 lock5 (Some (1 / 4)) None None busy_world
       = Some (Inl (LockException (ArgExc (LockException (ArgPrimitive 1)))), l1, w1)
     \<and> trace w1 = [EvOpen 1 ''f'', EvLock 1 False, EvSleep (1 / 4), EvClose 1]"
proof -
  have one: "(1::nat) = Suc 0" by simp
  show ?thesis
    unfolding one by (simp add: engine_defs lock5_def)
qed

theorem write_mode_truncates_after_lock_witness:
  "CHR ''w'' \<in> set ''w''
   \<and> lock5 = Lock_init ''f'' ''w'' (Some DEFAULT_TIMEOUT) DEFAULT_CHECK_INTERVAL False LOCK_METHOD
   \<and> mode lock5 = ''a''
   \<and> files busy_world ''f'' = Some ''spam''
   \<and> (\<exists>e l' w'. Lock_acquire 0 lock5 None None (Some True) busy_world = Some (Inl e, l', w')
         \<and> files w' ''f'' = Some ''spam'')
   \<and> (\<exists>e l' w'. Lock_acquire 1 lock5 (Some (1 / 4)) None None busy_world = Some (Inl e, l', w')
         \<and> trace w' = [EvOpen 1 ''f'', EvLock 1 False, EvSleep (1 / 4), EvClose 1]
         \<and> files w' ''f'' = Some ''spam'')
   \<and> files handover_world ''f'' = Some ''spam''
   \<and> (\<exists>l' w'. Lock_acquire 1 lock5 None None None handover_world = Some (Inr 1, l', w')
         \<and> trace w'
             = [EvOpen 1 ''f'', EvLock 1 False, EvSleep (1 / 4), EvLock 1 True, EvTruncate 1]
         \<and> holds_lock w' 1 \<and> files w' ''f'' = Some [])
   \<and> (\<exists>h l' w'. Lock_acquire 0 lock5 None None None idle_world = Some (Inr h, l', w')
         \<and> holds_lock w' h \<and> files w' ''f'' = Some [])"
proof -
  have m: "CHR ''w'' \<in> set ''w''" by simp
  note th = write_mode_truncates_after_lock [OF m lock5_def]
  have md: "mode lock5 = ''a''"
    using th [where w = idle_world] by (simp add: str_replace_def)
  have sp: "files busy_world ''f'' = Some ''spam''" "files handover_world ''f'' = Some ''spam''"
    by (simp_all add: busy_world_def handover_world_def)
  obtain e l1 w1 where
    a: "Lock_acquire 0 lock5 None None (Some True) busy_world = Some (Inl e, l1, w1)"
    by (simp add: engine_defs lock5_def)
  with th [where fuel = 0 and t = None and c = None and f = "Some True" and w = busy_world
      and e = e and l' = l1 and w' = w1] sp(1)
  have b: "files w1 ''f'' = Some ''spam''" by blast
  from busy_timeout obtain l3 w3 where
    t: "Lock_acquire 1 lock5 (Some (1 / 4)) None None busy_world
          = Some (Inl (LockException (ArgExc (LockException (ArgPrimitive 1)))), l3, w3)"
    and tt: "trace w3 = [EvOpen 1 ''f'', EvLock 1 False, EvSleep (1 / 4), EvClose 1]"
    by blast
  with th [where fuel = 1 and t = "Some (1 / 4)" and c = None and f = None and w = busy_world
      and e = "LockException (ArgExc (LockException (ArgPrimitive 1)))" and l' = l3
      and w' = w3] sp(1)
  have tf: "files w3 ''f'' = Some ''spam''" by blast
  from handover_acquire obtain l4 w4 where
    g: "Lock_acquire 1 lock5 None None None handover_world = Some (Inr 1, l4, w4)"
    and gt: "trace w4
               = [EvOpen 1 ''f'', EvLock 1 False, EvSleep (1 / 4), EvLock 1 True, EvTruncate 1]"
    by blast
  with th [where fuel = 1 and t = None and c = None and f = None and w = handover_world
      and h = 1 and l' = l4 and w' = w4]
  have gh: "holds_lock w4 1 \<and> files w4 ''f'' = Some []" by blast
  obtain h l2 w2 where
    c: "Lock_acquire 0 lock5 None None None idle_world = Some (Inr h, l2, w2)"
    by (simp add: lock5_acquire)
  with th [where fuel = 0 and t = None and c = None and f = None and w = idle_world
      and h = h and l' = l2 and w' = w2]
  have d: "holds_lock w2 h \<and> files w2 ''f'' = Some []" by blast
  show ?thesis
    using m lock5_def md sp a b t tt tf g gt gh c d by blast
qed

subsection \<open>Reentrant counting\<close>

lemma RLock_inv_init: "RLock_inv (RLock_init fname m tmo ci fwl fl)"
  by (simp add: RLock_inv_def RLock_init_def Lock_init_def Let_def)

lemma RLock_acquire_reentrant:
  "0 < acquire_count l \<Longrightarrow>
     RLock_acquire fuel l t c f w = Some (Inr (fh l), l\<lparr>acquire_count := acquire_count l + 1\<rparr>, w)"
  by (simp add: RLock_acquire_def)

lemma RLock_acquire_first:
  assumes inv: "RLock_inv l" and z: "acquire_count l = 0"
    and acq: "RLock_acquire fuel l t c f w = Some (Inr r, l', w')"
  shows "\<exists>h. r = Some h \<and> fh l' = Some h \<and> acquire_count l' = 1 \<and> holds_lock w' h
            \<and> fds w' h = Some (filename l) \<and> h = nfds w"
proof -
  from inv z have free: "fh l = None" by (simp add: RLock_inv_def)
  from acq z obtain h l1 where
    la: "Lock_acquire fuel l t c f w = Some (Inr h, l1, w')"
    and r: "r = Some h" and l': "l' = l1\<lparr>acquire_count := acquire_count l1 + 1\<rparr>"
    by (auto simp: RLock_acquire_def split: option.splits sum.splits prod.splits)
  from Lock_acquire_success [OF free la] z r l' show ?thesis by auto
qed

lemma RLock_acquire_inv:
  assumes inv: "RLock_inv l"
    and acq: "RLock_acquire fuel l t c f w = Some (r, l', w')"
  shows "RLock_inv l'"
proof (cases "1 \<le> acquire_count l")
  case True
  with acq have "l' = l\<lparr>acquire_count := acquire_count l + 1\<rparr>"
    by (simp add: RLock_acquire_def)
  with inv True show ?thesis by (simp add: RLock_inv_def)
next
  case False
  with inv have z: "acquire_count l = 0" and free: "fh l = None"
    by (auto simp: RLock_inv_def)
  show ?thesis
  proof (cases r)
    case (Inr x)
    from RLock_acquire_first [OF inv z acq [unfolded Inr]] show ?thesis
      by (auto simp: RLock_inv_def)
  next
    case (Inl e)
    with acq False obtain l1 where
      la: "Lock_acquire fuel l t c f w = Some (Inl e, l1, w')" and "l' = l1"
      by (auto simp: RLock_acquire_def split: option.splits sum.splits prod.splits)
    with Lock_acquire_failure [OF free la] have "l' = l" by simp
    with inv show ?thesis by simp
  qed
qed

lemma RLock_release_nested:
  "1 < acquire_count l \<Longrightarrow>
     RLock_release l w = (Inr (), l\<lparr>acquire_count := acquire_count l - 1\<rparr>, w)"
  by (simp add: RLock_release_def)

lemma RLock_release_last:
  "acquire_count l = 1 \<Longrightarrow> fh l = Some h \<Longrightarrow>
     RLock_release l w =
       (Inr (), l\<lparr>fh := None, acquire_count := 0\<rparr>, fh_close h (portalocker_unlock h w))"
  by (simp add: RLock_release_def Lock_release_def)

lemma RLock_release_inv: "RLock_inv l \<Longrightarrow> RLock_inv (fst (snd (RLock_release l w)))"
  by (auto simp: RLock_inv_def RLock_release_def Lock_release_def split: option.splits)

lemma acquire_times_reentrant:
  "0 < acquire_count l \<Longrightarrow>
     acquire_times n fuel l w = Some (l\<lparr>acquire_count := acquire_count l + int n\<rparr>, w)"
proof (induction n arbitrary: l)
  case 0
  then show ?case by simp
next
  case (Suc n)
  have "0 < acquire_count (l\<lparr>acquire_count := acquire_count l + 1\<rparr>)"
    using Suc.prems by simp
  from Suc.IH [OF this] Suc.prems show ?case
    by (simp add: RLock_acquire_reentrant add.commute add.left_commute)
qed

lemma release_times_nested:
  "int n < acquire_count l \<Longrightarrow>
     release_times n l w = Some (l\<lparr>acquire_count := acquire_count l - int n\<rparr>, w)"
proof (induction n arbitrary: l)
  case 0
  then show ?case by simp
next
  case (Suc n)
  have "int n < acquire_count (l\<lparr>acquire_count := acquire_count l - 1\<rparr>)"
    using Suc.prems by simp
  from Suc.IH [OF this] Suc.prems show ?case
    by (simp add: RLock_release_nested algebra_simps)
qed

lemma RLock_counting:
  assumes inv: "RLock_inv l" and z: "acquire_count l = 0"
    and acq: "acquire_times (Suc n) fuel l w = Some (l1, w1)"
  shows "\<exists>h la l2.
           RLock_acquire fuel l None None None w = Some (Inr (Some h), la, w1)
           \<and> fh l1 = Some h \<and> acquire_count l1 = int (Suc n) \<and> holds_lock w1 h
           \<and> release_times n l1 w1 = Some (l2, w1)
           \<and> fh l2 = Some h \<and> acquire_count l2 = 1
           \<and> (case RLock_release l2 w1 of
                 (r, l3, w3) \<Rightarrow>
                   r = Inr () \<and> acquire_count l3 = 0 \<and> fh l3 = None
                   \<and> \<not> holds_lock w3 h \<and> fds w3 h = None
                   \<and> trace w3 = trace w1 @ [EvUnlock h, EvClose h])"
proof -
  from acq obtain r la wa where
    first: "RLock_acquire fuel l None None None w = Some (Inr r, la, wa)"
    and rest: "acquire_times n fuel la wa = Some (l1, w1)"
    by (auto split: option.splits sum.splits prod.splits)
  from RLock_acquire_first [OF inv z first] obtain h where
    h: "r = Some h" "fh la = Some h" "acquire_count la = 1" "holds_lock wa h"
    by blast
  have pos: "0 < acquire_count la" using h(3) by simp
  from acquire_times_reentrant [OF pos, of n fuel wa] rest have
    l1: "l1 = la\<lparr>acquire_count := acquire_count la + int n\<rparr>" and w1: "w1 = wa"
    by simp_all
  have c1: "acquire_count l1 = int (Suc n)" "fh l1 = Some h"
    using l1 h by simp_all
  have "int n < acquire_count l1" using c1 by simp
  from release_times_nested [OF this, of w1] have
    rel: "release_times n l1 w1 = Some (l1\<lparr>acquire_count := acquire_count l1 - int n\<rparr>, w1)" .
  let ?l2 = "l1\<lparr>acquire_count := acquire_count l1 - int n\<rparr>"
  have c2: "acquire_count ?l2 = 1" "fh ?l2 = Some h"
    using c1 by simp_all
  have last: "case RLock_release ?l2 w1 of
                 (r, l3, w3) \<Rightarrow>
                   r = Inr () \<and> acquire_count l3 = 0 \<and> fh l3 = None
                   \<and> \<not> holds_lock w3 h \<and> fds w3 h = None
                   \<and> trace w3 = trace w1 @ [EvUnlock h, EvClose h]"
    using closed_after_release [of h w1]
    by (simp add: RLock_release_last [OF c2])
  show ?thesis
  proof (intro exI conjI)
    show "RLock_acquire fuel l None None None w = Some (Inr (Some h), la, w1)"
      using first h(1) w1 by simp
    show "fh l1 = Some h" by (rule c1(2))
    show "acquire_count l1 = int (Suc n)" by (rule c1(1))
    show "holds_lock w1 h" using h(4) w1 by simp
    show "release_times n l1 w1 = Some (?l2, w1)" by (rule rel)
    show "fh ?l2 = Some h" by (rule c2(2))
    show "acquire_count ?l2 = 1" by (rule c2(1))
    show "case RLock_release ?l2 w1 of
                 (r, l3, w3) \<Rightarrow>
                   r = Inr () \<and> acquire_count l3 = 0 \<and> fh l3 = None
                   \<and> \<not> holds_lock w3 h \<and> fds w3 h = None
                   \<and> trace w3 = trace w1 @ [EvUnlock h, EvClose h]"
      by (rule last)
  qed
qed

text \<open>
  C6. For a reentrant lock, a depth above 0 goes with a held handle and depth 0 with none:
  this holds of a new lock and is kept by every \<^verbatim>\<open>acquire\<close> and \<^verbatim>\<open>release\<close>. An
  \<^verbatim>\<open>acquire\<close> at a depth above 0 returns the handle and adds one to the depth without
  touching the world; a \<^verbatim>\<open>release\<close> at a depth above 1 only takes one off. So when
  \<open>n + 1\<close> calls of \<^verbatim>\<open>acquire\<close> succeed from depth 0, the world is the one the first
  call left, \<open>n\<close> releases leave the handle held at depth 1, and the next release
  unlocks and closes it.
\<close>

theorem RLock_depth_invariant:
  assumes inv: "RLock_inv l"
  shows "RLock_inv (RLock_init fname m tmo ci fwl fl)
     \<and> (RLock_acquire fuel l t c f w = Some (r, l', w') \<longrightarrow> RLock_inv l')
     \<and> RLock_inv (fst (snd (RLock_release l w)))
     \<and> (0 < acquire_count l \<longrightarrow>
          RLock_acquire fuel l t c f w
            = Some (Inr (fh l), l\<lparr>acquire_count := acquire_count l + 1\<rparr>, w))
     \<and> (1 < acquire_count l \<longrightarrow>
          RLock_release l w = (Inr (), l\<lparr>acquire_count := acquire_count l - 1\<rparr>, w))
     \<and> (acquire_count l = 0 \<and> acquire_times (Suc n) fuel l w = Some (l1, w1) \<longrightarrow>
          (\<exists>h la l2.
             RLock_acquire fuel l None None None w = Some (Inr (Some h), la, w1)
             \<and> fh l1 = Some h \<and> acquire_count l1 = int (Suc n) \<and> holds_lock w1 h
             \<and> release_times n l1 w1 = Some (l2, w1)
             \<and> fh l2 = Some h \<and> acquire_count l2 = 1
             \<and> (case RLock_release l2 w1 of
                   (r, l3, w3) \<Rightarrow>
                     r = Inr () \<and> acquire_count l3 = 0 \<and> fh l3 = None
                     \<and> \<not> holds_lock w3 h \<and> fds w3 h = None
                     \<and> trace w3 = trace w1 @ [EvUnlock h, EvClose h])))"
proof (intro conjI impI)
  show "RLock_inv (RLock_init fname m tmo ci fwl fl)" by (rule RLock_inv_init)
next
  assume "RLock_acquire fuel l t c f w = Some (r, l', w')"
  with inv show "RLock_inv l'" by (rule RLock_acquire_inv)
next
  from inv show "RLock_inv (fst (snd (RLock_release l w)))" by (rule RLock_release_inv)
next
  assume "0 < acquire_count l"
  then show "RLock_acquire fuel l t c f w
            = Some (Inr (fh l), l\<lparr>acquire_count := acquire_count l + 1\<rparr>, w)"
    by (rule RLock_acquire_reentrant)
next
  assume "1 < acquire_count l"
  then show "RLock_release l w = (Inr (), l\<lparr>acquire_count := acquire_count l - 1\<rparr>, w)"
    by (rule RLock_release_nested)
next
  assume a: "acquire_count l = 0 \<and> acquire_times (Suc n) fuel l w = Some (l1, w1)"
  then have z: "acquire_count l = 0" and t: "acquire_times (Suc n) fuel l w = Some (l1, w1)"
    by simp_all
  from RLock_counting [OF inv z t]
  show "\<exists>h la l2.
             RLock_acquire fuel l None None None w = Some (Inr (Some h), la, w1)
             \<and> fh l1 = Some h \<and> acquire_count l1 = int (Suc n) \<and> holds_lock w1 h
             \<and> release_times n l1 w1 = Some (l2, w1)
             \<and> fh l2 = Some h \<and> acquire_count l2 = 1
             \<and> (case RLock_release l2 w1 of
                   (r, l3, w3) \<Rightarrow>
                     r = Inr () \<and> acquire_count l3 = 0 \<and> fh l3 = None
                     \<and> \<not> holds_lock w3 h \<and> fds w3 h = None
                     \<and> trace w3 = trace w1 @ [EvUnlock h, EvClose h])" .
qed

lemma rlock0_three:
  "\<exists>l1 w1. acquire_times (Suc (Suc (Suc 0))) 0 rlock0 idle_world = Some (l1, w1)"
  by (simp add: RLock_acquire_def RLock_init_def rlock0_def engine_defs)

theorem RLock_depth_invariant_witness:
  "RLock_inv rlock0 \<and> acquire_count rlock0 = 0
   \<and> (\<exists>l1 w1 h l2.
         acquire_times (Suc (Suc (Suc 0))) 0 rlock0 idle_world = Some (l1, w1)
         \<and> acquire_count l1 = 3 \<and> fh l1 = Some h \<and> holds_lock w1 h
         \<and> release_times (Suc (Suc 0)) l1 w1 = Some (l2, w1)
         \<and> fh l2 = Some h \<and> acquire_count l2 = 1
         \<and> fh (fst (snd (RLock_release l2 w1))) = None
         \<and> \<not> holds_lock (snd (snd (RLock_release l2 w1))) h)"
proof -
  have i: "RLock_inv rlock0" unfolding rlock0_def by (rule RLock_inv_init)
  have z: "acquire_count rlock0 = 0" by (simp add: rlock0_def RLock_init_def Let_def)
  from rlock0_three obtain l1 w1 where
    a: "acquire_times (Suc (Suc (Suc 0))) 0 rlock0 idle_world = Some (l1, w1)" by blast
  have "\<exists>h la l2.
             RLock_acquire 0 rlock0 None None None idle_world = Some (Inr (Some h), la, w1)
             \<and> fh l1 = Some h \<and> acquire_count l1 = int (Suc (Suc (Suc 0))) \<and> holds_lock w1 h
             \<and> release_times (Suc (Suc 0)) l1 w1 = Some (l2, w1)
             \<and> fh l2 = Some h \<and> acquire_count l2 = 1
             \<and> (case RLock_release l2 w1 of
                   (r, l3, w3) \<Rightarrow>
                     r = Inr () \<and> acquire_count l3 = 0 \<and> fh l3 = None
                     \<and> \<not> holds_lock w3 h \<and> fds w3 h = None
                     \<and> trace w3 = trace w1 @ [EvUnlock h, EvClose h])"
    using RLock_depth_invariant [OF i, where n = "Suc (Suc 0)" and fuel = 0 and w = idle_world
      and ?l1.0 = l1 and ?w1.0 = w1 and t = None and c = None and f = None
      and r = "Inr None" and l' = rlock0 and w' = idle_world
      and fname = "''f''" and m = "''a''" and tmo = None and ci = 0 and fwl = False
      and fl = LOCK_METHOD] z a
    by (elim conjE) (erule mp, simp)
  then obtain h la l2 where
    c: "fh l1 = Some h" "acquire_count l1 = int (Suc (Suc (Suc 0)))" "holds_lock w1 h"
       "release_times (Suc (Suc 0)) l1 w1 = Some (l2, w1)"
       "fh l2 = Some h" "acquire_count l2 = 1"
       "case RLock_release l2 w1 of
                   (r, l3, w3) \<Rightarrow>
                     r = Inr () \<and> acquire_count l3 = 0 \<and> fh l3 = None
                     \<and> \<not> holds_lock w3 h \<and> fds w3 h = None
                     \<and> trace w3 = trace w1 @ [EvUnlock h, EvClose h]"
    by (elim exE conjE) (rule that, assumption+)
  from c(7) have d: "fh (fst (snd (RLock_release l2 w1))) = None"
      "\<not> holds_lock (snd (snd (RLock_release l2 w1))) h"
    by (auto split: prod.splits)
  from c(2) have e: "acquire_count l1 = 3" by simp
  show ?thesis
    using i z a e c(1,3,4,5,6) d by blast
qed

subsection \<open>A deadline that has passed before the first attempt\<close>

lemma Lock_acquire_no_wait:
  assumes free: "fh l = None"
    and tmo: "(case (case t of None \<Rightarrow> timeout l | Some x \<Rightarrow> Some x) of None \<Rightarrow> 0 | Some x \<Rightarrow> x) \<le> 0"
    and opn: "py_open (filename l) (mode l) w = (Inr h, w0)"
  shows "Lock_acquire fuel l t c f w =
           Some (Inl (LockException ArgNone), l,
                 try_close h (snd (current_time (snd (current_time w0)))))"
proof -
  have "\<not> fst (current_time w0)
            + (case (case t of None \<Rightarrow> timeout l | Some x \<Rightarrow> Some x) of None \<Rightarrow> 0 | Some x \<Rightarrow> x)
          > fst (current_time (snd (current_time w0)))"
    using tmo by (simp add: current_time_def Let_def)
  then show ?thesis
    using free opn
    by (simp add: Lock_acquire_unfold acquire_loop.simps acquire_step_def case_prod_beta)
qed

lemma sem_names:
  "get_filenames sem2 = [''bounded_semaphore.00.lock'', ''bounded_semaphore.01.lock'']"
  "get_filenames sem1 = [''bounded_semaphore.00.lock'']"
  by (simp_all add: get_filenames_def get_filename_def sem1_def sem2_def BoundedSemaphore_init_def
        default_pattern_def path_join_def upt_rec [of 0] upt_rec [of 1] upt_rec [of "Suc 0"])

lemma sem_fields:
  "lock sem1 = None" "sem_timeout sem1 = Some 5" "sem_check_interval sem1 = 1 / 4"
  "lock sem2 = None" "sem_timeout sem2 = Some 5" "sem_check_interval sem2 = 1 / 4"
  by (simp_all add: sem1_def sem2_def BoundedSemaphore_init_def DEFAULT_TIMEOUT_def
        DEFAULT_CHECK_INTERVAL_def)

subsection \<open>The semaphore draws no random number\<close>

lemma Lock_acquire_rng:
  assumes "fh l = None" and "Lock_acquire fuel l t c f w = Some (r, l', w')"
  shows "rng_pos w' = rng_pos w"
proof (cases r)
  case (Inl e)
  from Lock_acquire_failure [OF assms(1) assms(2) [unfolded Inl]] show ?thesis by simp
next
  case (Inr h)
  from Lock_acquire_success [OF assms(1) assms(2) [unfolded Inr]] show ?thesis by simp
qed

lemma try_lock_rng:
  "try_lock fuel s fs w = Some (r, s', w') \<Longrightarrow> rng_pos w' = rng_pos w"
proof (induction fs arbitrary: s w)
  case Nil
  then show ?case by simp
next
  case (Cons f fs)
  let ?l = "Lock_init f ''a'' (Some DEFAULT_TIMEOUT) DEFAULT_CHECK_INTERVAL True LOCK_METHOD"
  have free: "fh ?l = None" by (simp add: Lock_init_def)
  from Cons.prems obtain r1 l1 w1 where
    a: "Lock_acquire fuel ?l None None None w = Some (r1, l1, w1)"
    by (cases "Lock_acquire fuel ?l None None None w") auto
  note st = Lock_acquire_rng [OF free a]
  show ?case
  proof (cases "\<exists>x. r1 = Inl (AlreadyLocked x)")
    case True
    then obtain x where "r1 = Inl (AlreadyLocked x)" by blast
    with Cons.prems a have "try_lock fuel (s\<lparr>lock := Some l1\<rparr>) fs w1 = Some (r, s', w')"
      by simp
    from Cons.IH [OF this] st show ?thesis by simp
  next
    case False
    with Cons.prems a have "w' = w1"
      by (auto split: sum.splits error.splits)
    with st show ?thesis by simp
  qed
qed

lemma semaphore_loop_rng:
  "semaphore_loop fuel s fs te ci w = Some (r, s', w') \<Longrightarrow> rng_pos w' = rng_pos w"
proof (induction fuel arbitrary: s w)
  case 0
  then show ?case
    by (auto simp: semaphore_loop.simps [of 0] current_time_def Let_def time_sleep_def
          split: if_splits option.splits sum.splits prod.splits bool.splits
          dest!: try_lock_rng)
next
  case (Suc n)
  obtain t w1 where ct: "current_time w = (t, w1)" by (cases "current_time w")
  then have c1: "rng_pos w1 = rng_pos w" by (simp add: current_time_facts)
  show ?case
  proof (cases "te > t")
    case False
    with Suc.prems ct c1 show ?thesis by (simp add: semaphore_loop.simps [of "Suc n"])
  next
    case True
    with Suc.prems ct obtain r2 s2 w2 where
      tl: "try_lock (Suc n) s fs w1 = Some (r2, s2, w2)"
      by (cases "try_lock (Suc n) s fs w1") (auto simp: semaphore_loop.simps [of "Suc n"])
    note t2 = try_lock_rng [OF tl]
    show ?thesis
    proof (cases "r2 = Inr False \<and> 0 \<le> ci")
      case True
      with Suc.prems ct \<open>te > t\<close> tl have
        "semaphore_loop n s2 fs te ci
           (w2\<lparr>clock := clock w2 + ci, held := others w2 (sleeps w2) (held w2),
               sleeps := Suc (sleeps w2), trace := trace w2 @ [EvSleep ci]\<rparr>)
           = Some (r, s', w')"
        by (simp add: semaphore_loop.simps [of "Suc n"] time_sleep_def)
      from Suc.IH [OF this] t2 c1 show ?thesis by simp
    next
      case False
      with Suc.prems ct \<open>te > t\<close> tl have "rng_pos w' = rng_pos w2"
        by (auto simp: semaphore_loop.simps [of "Suc n"] time_sleep_def
              split: sum.splits bool.splits if_splits)
      with t2 c1 show ?thesis by simp
    qed
  qed
qed

lemma BoundedSemaphore_acquire_rng:
  assumes "BoundedSemaphore_acquire fuel s t c w = Some (r, s', w')"
  shows "rng_pos w' = rng_pos w"
proof (cases "lock s = None")
  case False
  with assms show ?thesis by (simp add: BoundedSemaphore_acquire_def)
next
  case True
  with assms obtain r1 s1 w1 where
    tl: "try_lock fuel s (get_filenames s) w = Some (r1, s1, w1)"
    by (cases "try_lock fuel s (get_filenames s) w")
       (auto simp: BoundedSemaphore_acquire_def Let_def)
  note t1 = try_lock_rng [OF tl]
  let ?tmo = "case (case t of None \<Rightarrow> sem_timeout s | Some x \<Rightarrow> Some x) of None \<Rightarrow> 0 | Some x \<Rightarrow> x"
  show ?thesis
  proof (cases "r1 = Inr False \<and> ?tmo \<noteq> 0")
    case False
    with assms True tl have "w' = w1"
      by (auto simp: BoundedSemaphore_acquire_def Let_def split: sum.splits bool.splits if_splits)
    with t1 show ?thesis by simp
  next
    case True
    obtain t0 w2 where ct: "current_time w1 = (t0, w2)" by (cases "current_time w1")
    with assms \<open>lock s = None\<close> tl True have
      "semaphore_loop fuel s1 (get_filenames s) (t0 + ?tmo)
         (resolve c (sem_check_interval s)) w2 = Some (r, s', w')"
      by (simp add: BoundedSemaphore_acquire_def Let_def)
    from semaphore_loop_rng [OF this] current_time_facts [OF ct] t1 show ?thesis by simp
  qed
qed

subsection \<open>Where the code departs from the claims\<close>

text \<open>
  C1. The claim is that a timeout of 0 still makes exactly one attempt and succeeds on a
  free lock. The code does otherwise: on a file that nobody has locked, a lock whose
  timeout is 0, or absent at both levels, or given as 0 to \<^verbatim>\<open>acquire\<close>, opens the file,
  makes no attempt at all, closes the file and raises \<^verbatim>\<open>LockException(None)\<close>, whereas
  with the default timeout the same lock is acquired at the first attempt.
\<close>

theorem zero_timeout_makes_no_attempt:
  "(\<forall>fuel. outcome (Lock_acquire fuel
               (Lock_init ''f'' ''a'' (Some 0) DEFAULT_CHECK_INTERVAL False LOCK_METHOD)
               None None None idle_world)
            = Some (Inl (LockException ArgNone), None, [EvOpen 0 ''f'', EvClose 0]))
   \<and> (\<forall>fuel. outcome (Lock_acquire fuel
               (Lock_init ''f'' ''a'' None DEFAULT_CHECK_INTERVAL False LOCK_METHOD)
               None None None idle_world)
            = Some (Inl (LockException ArgNone), None, [EvOpen 0 ''f'', EvClose 0]))
   \<and> (\<forall>fuel. outcome (Lock_acquire fuel
               (Lock_init ''f'' ''a'' (Some DEFAULT_TIMEOUT) DEFAULT_CHECK_INTERVAL False LOCK_METHOD)
               (Some 0) None None idle_world)
            = Some (Inl (LockException ArgNone), None, [EvOpen 0 ''f'', EvClose 0]))
   \<and> (\<forall>fuel. outcome (Lock_acquire fuel
               (Lock_init ''f'' ''a'' (Some DEFAULT_TIMEOUT) DEFAULT_CHECK_INTERVAL False LOCK_METHOD)
               None None None idle_world)
            = Some (Inr 0, Some 0, [EvOpen 0 ''f'', EvLock 0 True]))"
  by (simp add: engine_defs)

text \<open>
  C5. The claim is that a failed acquire on a contended lock raises \<^verbatim>\<open>AlreadyLocked\<close>
  when \<^verbatim>\<open>fail_when_locked\<close> is set, and otherwise the generic exception with the last
  contention error as its argument. With a timeout of 0 the code raises the generic
  \<^verbatim>\<open>LockException(None)\<close> in both cases, without any attempt; with a positive timeout
  it does what the claim says (third and fourth conjunct). The handle is closed every time.
\<close>

theorem fail_fast_zero_timeout_is_generic:
  "(\<forall>fuel. outcome (Lock_acquire fuel
               (Lock_init ''f'' ''a'' (Some 0) DEFAULT_CHECK_INTERVAL True LOCK_METHOD)
               None None None busy_world)
            = Some (Inl (LockException ArgNone), None, [EvOpen 1 ''f'', EvClose 1]))
   \<and> (\<forall>fuel. outcome (Lock_acquire fuel
               (Lock_init ''f'' ''a'' (Some 0) DEFAULT_CHECK_INTERVAL False LOCK_METHOD)
               None None None busy_world)
            = Some (Inl (LockException ArgNone), None, [EvOpen 1 ''f'', EvClose 1]))
   \<and> (\<forall>fuel. outcome (Lock_acquire fuel
               (Lock_init ''f'' ''a'' (Some DEFAULT_TIMEOUT) DEFAULT_CHECK_INTERVAL True LOCK_METHOD)
               None None None busy_world)
            = Some (Inl (AlreadyLocked (ArgExc (LockException (ArgPrimitive 1)))), None,
                    [EvOpen 1 ''f'', EvLock 1 False, EvClose 1]))
   \<and> outcome (Lock_acquire 2
               (Lock_init ''f'' ''a'' (Some (1 / 2)) DEFAULT_CHECK_INTERVAL False LOCK_METHOD)
               None None None busy_world)
            = Some (Inl (LockException (ArgExc (LockException (ArgPrimitive 1)))), None,
                    [EvOpen 1 ''f'', EvLock 1 False, EvSleep (1 / 4), EvLock 1 False,
                     EvSleep (1 / 4), EvClose 1])"
  by (simp add: engine_defs)

text \<open>
  C2. The claim is that every pass of \<^verbatim>\<open>BoundedSemaphore.acquire\<close> tries the candidates
  in a fresh random permutation. The code calls \<^verbatim>\<open>get_filenames\<close>, not
  \<^verbatim>\<open>get_random_filenames\<close>: where the shuffle would put file 01 first, \<^verbatim>\<open>acquire\<close>
  takes file 00 and draws no random number, and when both files are locked every pass
  tries 00 and then 01.
\<close>

theorem semaphore_scans_in_fixed_order:
  "get_random_filenames sem2 idle_world
     = ([''bounded_semaphore.01.lock'', ''bounded_semaphore.00.lock''], idle_world\<lparr>rng_pos := 1\<rparr>)
   \<and> (\<forall>fuel. sem_outcome (BoundedSemaphore_acquire fuel sem2 None None idle_world)
        = Some (Inr (Some ''bounded_semaphore.00.lock''), False,
                [EvOpen 0 ''bounded_semaphore.00.lock'', EvLock 0 True], 0))
   \<and> sem_outcome (BoundedSemaphore_acquire 2 sem2 (Some (1 / 2)) None full_world)
        = Some (Inl (AlreadyLocked NoArgs), False,
             [EvOpen 2 ''bounded_semaphore.00.lock'', EvLock 2 False, EvClose 2,
              EvOpen 3 ''bounded_semaphore.01.lock'', EvLock 3 False, EvClose 3,
              EvOpen 4 ''bounded_semaphore.00.lock'', EvLock 4 False, EvClose 4,
              EvOpen 5 ''bounded_semaphore.01.lock'', EvLock 5 False, EvClose 5,
              EvSleep (1 / 4),
              EvOpen 6 ''bounded_semaphore.00.lock'', EvLock 6 False, EvClose 6,
              EvOpen 7 ''bounded_semaphore.01.lock'', EvLock 7 False, EvClose 7,
              EvSleep (1 / 4)], 0)"
proof (intro conjI allI)
  show "get_random_filenames sem2 idle_world
     = ([''bounded_semaphore.01.lock'', ''bounded_semaphore.00.lock''], idle_world\<lparr>rng_pos := 1\<rparr>)"
    by (simp add: get_random_filenames_def sem_names random_shuffle_def randbelow_def
          idle_world_def)
next
  fix fuel
  show "sem_outcome (BoundedSemaphore_acquire fuel sem2 None None idle_world)
        = Some (Inr (Some ''bounded_semaphore.00.lock''), False,
                [EvOpen 0 ''bounded_semaphore.00.lock'', EvLock 0 True], 0)"
    by (simp add: BoundedSemaphore_acquire_def sem_names sem_fields sem_outcome_def engine_defs)
next
  have two: "(2::nat) = Suc (Suc 0)" by simp
  show "sem_outcome (BoundedSemaphore_acquire 2 sem2 (Some (1 / 2)) None full_world)
        = Some (Inl (AlreadyLocked NoArgs), False,
             [EvOpen 2 ''bounded_semaphore.00.lock'', EvLock 2 False, EvClose 2,
              EvOpen 3 ''bounded_semaphore.01.lock'', EvLock 3 False, EvClose 3,
              EvOpen 4 ''bounded_semaphore.00.lock'', EvLock 4 False, EvClose 4,
              EvOpen 5 ''bounded_semaphore.01.lock'', EvLock 5 False, EvClose 5,
              EvSleep (1 / 4),
              EvOpen 6 ''bounded_semaphore.00.lock'', EvLock 6 False, EvClose 6,
              EvOpen 7 ''bounded_semaphore.01.lock'', EvLock 7 False, EvClose 7,
              EvSleep (1 / 4)], 0)"
    unfolding two
    by (simp add: BoundedSemaphore_acquire_def sem_names sem_fields sem_outcome_def engine_defs
          semaphore_loop.simps full_world_def)
qed

text \<open>
  C3. The claim is that after an \<^verbatim>\<open>acquire()\<close> that fails with \<^verbatim>\<open>AlreadyLocked\<close> the
  semaphore retains no lock object, so that a later \<^verbatim>\<open>acquire()\<close> is not taken for one
  that already holds a permit. The code leaves in \<^verbatim>\<open>self.lock\<close> the \<^verbatim>\<open>Lock\<close> of the last
  candidate (which holds no handle), and the next \<^verbatim>\<open>acquire()\<close> fails its assertion
  \<^verbatim>\<open>'Already locked'\<close>.
\<close>

theorem failed_semaphore_acquire_blocks_the_next:
  "\<forall>fuel.
     (case BoundedSemaphore_acquire fuel sem1 (Some 0) None full_world of
        Some (r, s', w') \<Rightarrow>
          r = Inl (AlreadyLocked NoArgs)
          \<and> map_option fh (lock s') = Some None
          \<and> map_option filename (lock s') = Some ''bounded_semaphore.00.lock''
          \<and> held w' = held full_world
          \<and> BoundedSemaphore_acquire fuel s' (Some 0) None w'
              = Some (Inl (AssertionError ''Already locked''), s', w')
      | None \<Rightarrow> False)"
  by (simp add: BoundedSemaphore_acquire_def sem_names sem_fields engine_defs full_world_def)

subsection \<open>open\_atomic\<close>

lemmas atomic_defs =
  open_atomic_def open_atomic_setup_def open_atomic_finish_def NamedTemporaryFile_def
  os_rename_def os_remove_def fault_def os_path_exists_def os_path_isdir_def os_path_split_def
  os_path_join_def os_makedirs_def fs0_def fh_write_def fh_flush_def on_disk_def
  rename_refused_def above_def py_repr_def repr_char_def hex2_def Let_def












lemma open_atomic_name_collision:
  "fst (open_atomic ''out'' True (Writes ''ab'') (fs0\<lparr>tmp_names := [''out'']\<rparr>)) = Inr ()
   \<and> fs_files (snd (open_atomic ''out'' True (Writes ''ab'') (fs0\<lparr>tmp_names := [''out'']\<rparr>))) ''out''
       = None"
  by (simp add: atomic_defs)



subsection \<open>The scoped form\<close>

lemma with_statement_entered:
  assumes "acquire cls fuel self None None None w = Some (Inr r, s1, w1)"
    and "body r s1 w1 = (res, s2, w2)"
  shows "with_statement cls fuel self body w = Some (exit_result res (release cls s2 w2))"
  using assms
  by (simp add: with_statement_def LockBase_enter_def LockBase_exit_def exit_result_def
        split: prod.splits sum.splits)

lemma with_statement_not_entered:
  assumes "acquire cls fuel self None None None w = Some (Inl e, s1, w1)"
  shows "with_statement cls fuel self body w = Some (Inl e, s1, w1)"
  using assms by (simp add: with_statement_def LockBase_enter_def)

lemma Lock_release_result:
  "Lock_release l w = (Inr (), l\<lparr>fh := None\<rparr>,
      case fh l of None \<Rightarrow> w | Some h \<Rightarrow> fh_close h (portalocker_unlock h w))"
  by (cases "fh l") (simp_all add: Lock_release_def)

lemma Lock_release_frees:
  "fst (Lock_release l w) = Inr () \<and> fh (fst (snd (Lock_release l w))) = None
   \<and> (case fh l of
         None \<Rightarrow> snd (snd (Lock_release l w)) = w
       | Some h \<Rightarrow> fds (snd (snd (Lock_release l w))) h = None
                  \<and> \<not> holds_lock (snd (snd (Lock_release l w))) h)"
  using closed_after_release
  by (cases "fh l") (simp_all add: Lock_release_result)

text \<open>
  C10. For each class derived from \<^verbatim>\<open>LockBase\<close>, \<^verbatim>\<open>__enter__\<close> is \<^verbatim>\<open>acquire()\<close> with
  every argument left to the instance's defaults, and once the scope is entered the
  \<^verbatim>\<open>with\<close> statement ends in \<^verbatim>\<open>release()\<close> applied to the object and the world as the
  body left them, whether the body returned or raised (\<open>res\<close> is either). For a
  \<^verbatim>\<open>Lock\<close> this leaves no handle in the object and the handle it had closed and
  unlocked, and the outcome of the body goes through; a \<^verbatim>\<open>TemporaryFileLock\<close> has its
  file removed as well; an \<^verbatim>\<open>RLock\<close> is one level lower; a \<^verbatim>\<open>BoundedSemaphore\<close> has
  its permit released and \<^verbatim>\<open>self.lock\<close> cleared.
\<close>

theorem scoped_form_releases:
  "LockBase_enter Lock_class fuel l w = Lock_acquire fuel l None None None w
   \<and> LockBase_enter RLock_class fuel rl w = RLock_acquire fuel rl None None None w
   \<and> LockBase_enter TemporaryFileLock_class fuel l w = Lock_acquire fuel l None None None w
   \<and> LockBase_enter BoundedSemaphore_class fuel s w = BoundedSemaphore_acquire fuel s None None w
   \<and> (Lock_acquire fuel l None None None w = Some (Inr h, l1, w1)
        \<and> body h l1 w1 = (res, l2, w2) \<longrightarrow>
          with_statement Lock_class fuel l body w = Some (exit_result res (Lock_release l2 w2))
          \<and> exit_result res (Lock_release l2 w2) = (res, snd (Lock_release l2 w2))
          \<and> fh (fst (snd (Lock_release l2 w2))) = None
          \<and> (case fh l2 of
                None \<Rightarrow> True
              | Some h2 \<Rightarrow> fds (snd (snd (Lock_release l2 w2))) h2 = None
                         \<and> \<not> holds_lock (snd (snd (Lock_release l2 w2))) h2))
   \<and> (RLock_acquire fuel rl None None None w = Some (Inr rh, rl1, w1)
        \<and> rbody rh rl1 w1 = (rres, rl2, w2) \<longrightarrow>
          with_statement RLock_class fuel rl rbody w
            = Some (exit_result rres (RLock_release rl2 w2))
          \<and> (if acquire_count rl2 = 0
              then exit_result rres (RLock_release rl2 w2)
                     = (Inl (LockException (ArgText ''Cannot release more times than acquired'')),
                        rl2, w2)
              else fst (exit_result rres (RLock_release rl2 w2)) = rres
                   \<and> acquire_count (fst (snd (RLock_release rl2 w2))) = acquire_count rl2 - 1))
   \<and> (Lock_acquire fuel l None None None w = Some (Inr h, l1, w1)
        \<and> tbody h l1 w1 = (tres, l2, w2) \<longrightarrow>
          with_statement TemporaryFileLock_class fuel l tbody w
            = Some (exit_result tres (TemporaryFileLock_release l2 w2))
          \<and> fst (exit_result tres (TemporaryFileLock_release l2 w2)) = tres
          \<and> fh (fst (snd (TemporaryFileLock_release l2 w2))) = None
          \<and> files (snd (snd (TemporaryFileLock_release l2 w2))) (filename l2) = None)
   \<and> (BoundedSemaphore_acquire fuel s None None w = Some (Inr sl, s1, w1)
        \<and> sbody sl s1 w1 = (sres, s2, w2) \<longrightarrow>
          with_statement BoundedSemaphore_class fuel s sbody w
            = Some (exit_result sres (BoundedSemaphore_release s2 w2))
          \<and> (case lock s2 of
                None \<Rightarrow> exit_result sres (BoundedSemaphore_release s2 w2)
                          = (Inl AttributeError, s2, w2)
              | Some lk \<Rightarrow>
                  exit_result sres (BoundedSemaphore_release s2 w2)
                    = (sres, s2\<lparr>lock := None\<rparr>, snd (snd (Lock_release lk w2)))))"
proof (intro conjI impI)
  show "LockBase_enter Lock_class fuel l w = Lock_acquire fuel l None None None w"
    by (simp add: LockBase_enter_def Lock_class_def)
  show "LockBase_enter RLock_class fuel rl w = RLock_acquire fuel rl None None None w"
    by (simp add: LockBase_enter_def RLock_class_def)
  show "LockBase_enter TemporaryFileLock_class fuel l w = Lock_acquire fuel l None None None w"
    by (simp add: LockBase_enter_def TemporaryFileLock_class_def)
  show "LockBase_enter BoundedSemaphore_class fuel s w = BoundedSemaphore_acquire fuel s None None w"
    by (simp add: LockBase_enter_def BoundedSemaphore_class_def)
next
  assume a: "Lock_acquire fuel l None None None w = Some (Inr h, l1, w1)
        \<and> body h l1 w1 = (res, l2, w2)"
  then have "acquire Lock_class fuel l None None None w = Some (Inr h, l1, w1)"
    "body h l1 w1 = (res, l2, w2)"
    by (simp_all add: Lock_class_def)
  from with_statement_entered [where body = body, OF this]
  show "with_statement Lock_class fuel l body w = Some (exit_result res (Lock_release l2 w2))"
    by (simp add: Lock_class_def)
  show "exit_result res (Lock_release l2 w2) = (res, snd (Lock_release l2 w2))"
    by (simp add: exit_result_def Lock_release_result)
  show "fh (fst (snd (Lock_release l2 w2))) = None"
    using Lock_release_frees [of l2 w2] by simp
  show "case fh l2 of
                None \<Rightarrow> True
              | Some h2 \<Rightarrow> fds (snd (snd (Lock_release l2 w2))) h2 = None
                         \<and> \<not> holds_lock (snd (snd (Lock_release l2 w2))) h2"
    using Lock_release_frees [of l2 w2] by (simp split: option.splits)
next
  assume a: "RLock_acquire fuel rl None None None w = Some (Inr rh, rl1, w1)
        \<and> rbody rh rl1 w1 = (rres, rl2, w2)"
  then have "acquire RLock_class fuel rl None None None w = Some (Inr rh, rl1, w1)"
    "rbody rh rl1 w1 = (rres, rl2, w2)"
    by (simp_all add: RLock_class_def)
  from with_statement_entered [where body = rbody, OF this]
  show "with_statement RLock_class fuel rl rbody w
            = Some (exit_result rres (RLock_release rl2 w2))"
    by (simp add: RLock_class_def)
  show "if acquire_count rl2 = 0
              then exit_result rres (RLock_release rl2 w2)
                     = (Inl (LockException (ArgText ''Cannot release more times than acquired'')),
                        rl2, w2)
              else fst (exit_result rres (RLock_release rl2 w2)) = rres
                   \<and> acquire_count (fst (snd (RLock_release rl2 w2))) = acquire_count rl2 - 1"
    by (simp add: exit_result_def RLock_release_def Lock_release_result)
next
  assume a: "Lock_acquire fuel l None None None w = Some (Inr h, l1, w1)
        \<and> tbody h l1 w1 = (tres, l2, w2)"
  then have "acquire TemporaryFileLock_class fuel l None None None w = Some (Inr h, l1, w1)"
    "tbody h l1 w1 = (tres, l2, w2)"
    by (simp_all add: TemporaryFileLock_class_def)
  from with_statement_entered [where body = tbody, OF this]
  show "with_statement TemporaryFileLock_class fuel l tbody w
            = Some (exit_result tres (TemporaryFileLock_release l2 w2))"
    by (simp add: TemporaryFileLock_class_def)
  show "fst (exit_result tres (TemporaryFileLock_release l2 w2)) = tres"
    by (simp add: exit_result_def TemporaryFileLock_release_def Lock_release_result)
  show "fh (fst (snd (TemporaryFileLock_release l2 w2))) = None"
    by (simp add: TemporaryFileLock_release_def Lock_release_result)
  show "files (snd (snd (TemporaryFileLock_release l2 w2))) (filename l2) = None"
    by (simp add: TemporaryFileLock_release_def Lock_release_result os_unlink_def)
next
  assume a: "BoundedSemaphore_acquire fuel s None None w = Some (Inr sl, s1, w1)
        \<and> sbody sl s1 w1 = (sres, s2, w2)"
  then have "acquire BoundedSemaphore_class fuel s None None None w = Some (Inr sl, s1, w1)"
    "sbody sl s1 w1 = (sres, s2, w2)"
    by (simp_all add: BoundedSemaphore_class_def)
  from with_statement_entered [where body = sbody, OF this]
  show "with_statement BoundedSemaphore_class fuel s sbody w
            = Some (exit_result sres (BoundedSemaphore_release s2 w2))"
    by (simp add: BoundedSemaphore_class_def)
  show "case lock s2 of
                None \<Rightarrow> exit_result sres (BoundedSemaphore_release s2 w2)
                          = (Inl AttributeError, s2, w2)
              | Some lk \<Rightarrow>
                  exit_result sres (BoundedSemaphore_release s2 w2)
                    = (sres, s2\<lparr>lock := None\<rparr>, snd (snd (Lock_release lk w2)))"
    by (simp add: exit_result_def BoundedSemaphore_release_def Lock_release_result
          split: option.splits)
qed

lemmas scoped_defs =
  with_statement_def LockBase_enter_def LockBase_exit_def Lock_class_def RLock_class_def
  TemporaryFileLock_class_def BoundedSemaphore_class_def raising_body_def Lock_release_def
  RLock_acquire_def RLock_release_def RLock_init_def TemporaryFileLock_release_def
  TemporaryFileLock_init_def os_unlink_def BoundedSemaphore_acquire_def
  BoundedSemaphore_release_def

theorem scoped_form_releases_witness:
  "Lock_acquire 0 lock5 None None None idle_world = Some (Inr 0, lock5\<lparr>fh := Some 0\<rparr>, locked_world)
   \<and> raising_body (0::handle) (lock5\<lparr>fh := Some 0\<rparr>) locked_world
       = (Inl ValueError, lock5\<lparr>fh := Some 0\<rparr>, locked_world)
   \<and> outcome (with_statement Lock_class 0 lock5 raising_body idle_world)
       = Some (Inl ValueError, None,
               [EvOpen 0 ''f'', EvLock 0 True, EvTruncate 0, EvUnlock 0, EvClose 0])
   \<and> outcome (with_statement TemporaryFileLock_class 0 tmp_lock raising_body idle_world)
       = Some (Inl ValueError, None,
               [EvOpen 0 ''.lock'', EvLock 0 True, EvTruncate 0, EvUnlock 0, EvClose 0,
                EvUnlink ''.lock''])
   \<and> outcome (with_statement RLock_class 0 rlock0 raising_body idle_world)
       = Some (Inl ValueError, None, [EvOpen 0 ''f'', EvLock 0 True, EvUnlock 0, EvClose 0])
   \<and> map_option (\<lambda>(r, s, w). (r, lock s, trace w))
         (with_statement BoundedSemaphore_class 0 sem2 raising_body idle_world)
       = Some (Inl ValueError, None,
               [EvOpen 0 ''bounded_semaphore.00.lock'', EvLock 0 True, EvUnlock 0, EvClose 0])"
proof -
  have a: "Lock_acquire 0 lock5 None None None idle_world
             = Some (Inr 0, lock5\<lparr>fh := Some 0\<rparr>, locked_world)"
    by (rule lock5_acquire)
  have b: "raising_body (0::handle) (lock5\<lparr>fh := Some 0\<rparr>) locked_world
             = (Inl ValueError, lock5\<lparr>fh := Some 0\<rparr>, locked_world)"
    by (simp add: raising_body_def)
  note t = scoped_form_releases [where fuel = 0 and l = lock5 and w = idle_world and h = 0
      and ?l1.0 = "lock5\<lparr>fh := Some 0\<rparr>" and ?w1.0 = locked_world and body = raising_body
      and res = "Inl ValueError" and ?l2.0 = "lock5\<lparr>fh := Some 0\<rparr>" and ?w2.0 = locked_world]
  from t [THEN conjunct2, THEN conjunct2, THEN conjunct2, THEN conjunct2, THEN conjunct1,
          THEN mp, OF conjI, OF a b]
  have "with_statement Lock_class 0 lock5 raising_body idle_world
          = Some (exit_result (Inl ValueError) (Lock_release (lock5\<lparr>fh := Some 0\<rparr>) locked_world))"
    by (rule conjunct1)
  then have c: "outcome (with_statement Lock_class 0 lock5 raising_body idle_world)
       = Some (Inl ValueError, None,
               [EvOpen 0 ''f'', EvLock 0 True, EvTruncate 0, EvUnlock 0, EvClose 0])"
    by (simp add: exit_result_def Lock_release_def outcome_def locked_world_def fh_close_def
          portalocker_unlock_def)
  have d: "outcome (with_statement TemporaryFileLock_class 0 tmp_lock raising_body idle_world)
       = Some (Inl ValueError, None,
               [EvOpen 0 ''.lock'', EvLock 0 True, EvTruncate 0, EvUnlock 0, EvClose 0,
                EvUnlink ''.lock''])"
    by (simp add: scoped_defs tmp_lock_def engine_defs)
  have e: "outcome (with_statement RLock_class 0 rlock0 raising_body idle_world)
       = Some (Inl ValueError, None, [EvOpen 0 ''f'', EvLock 0 True, EvUnlock 0, EvClose 0])"
    by (simp add: scoped_defs rlock0_def engine_defs)
  have f: "map_option (\<lambda>(r, s, w). (r, lock s, trace w))
         (with_statement BoundedSemaphore_class 0 sem2 raising_body idle_world)
       = Some (Inl ValueError, None,
               [EvOpen 0 ''bounded_semaphore.00.lock'', EvLock 0 True, EvUnlock 0, EvClose 0])"
    by (simp add: scoped_defs sem_names sem_fields engine_defs)
  from a b c d e f show ?thesis by simp
qed

end
